theory Spec2Isabelle
  imports Complex_Main "HOL-Library.Word" "HOL-Library.Sublist" "HOL-Library.Multiset"
begin

section \<open>Search history (searchApps, the setSearchHistory update)\<close>

text \<open>
  JavaScript strings are modelled as \<open>string\<close>. The library functions
  \<open>String.prototype.trim\<close> and \<open>String.prototype.toLowerCase\<close> are parameters \<open>trim\<close> and
  \<open>toLowerCase\<close> of the definitions that call them: nothing is assumed of what they do to a
  string.
\<close>

text \<open>
  \<^verbatim>\<open>[searchValue, ...prev.filter(t => t !== searchValue)].slice(0, 5)\<close>
\<close>

definition newHistory :: "string \<Rightarrow> string list \<Rightarrow> string list" where
  "newHistory searchValue prev = take 5 (searchValue # filter (\<lambda>t. t \<noteq> searchValue) prev)"

text \<open>
  The part of \<open>searchApps\<close> that touches the history. The optional argument \<open>term\<close> is
  \<open>None\<close> when the call passes none; \<open>term || searchTerm\<close> falls back to the input field
  when \<open>term\<close> is undefined or the empty string. A blank search value returns before
  the history is touched.
\<close>

definition searchValue_of :: "string option \<Rightarrow> string \<Rightarrow> string" where
  "searchValue_of term searchTerm =
     (case term of None \<Rightarrow> searchTerm | Some t \<Rightarrow> if t = [] then searchTerm else t)"

definition searchApps_history ::
  "(string \<Rightarrow> string) \<Rightarrow> string option \<Rightarrow> string \<Rightarrow> string list \<Rightarrow> string list" where
  "searchApps_history trim term searchTerm prev =
     (let searchValue = searchValue_of term searchTerm
      in if trim searchValue = [] then prev else newHistory searchValue prev)"

text \<open>A session: the history after a sequence of \<open>searchApps\<close> calls, starting empty.\<close>

definition history_after :: "(string \<Rightarrow> string) \<Rightarrow> (string option \<times> string) list \<Rightarrow> string list" where
  "history_after trim calls =
     foldl (\<lambda>h (term, searchTerm). searchApps_history trim term searchTerm h) [] calls"

lemma newHistory_length: "length (newHistory v prev) \<le> 5"
  by (simp add: newHistory_def)

lemma newHistory_distinct: "distinct prev \<Longrightarrow> distinct (newHistory v prev)"
  unfolding newHistory_def by (rule distinct_take) simp

lemma searchApps_history_inv:
  "length prev \<le> 5 \<and> distinct prev \<Longrightarrow>
   length (searchApps_history trim t s prev) \<le> 5 \<and> distinct (searchApps_history trim t s prev)"
  by (simp add: searchApps_history_def Let_def newHistory_length newHistory_distinct)

lemma history_after_inv: "length (history_after trim calls) \<le> 5 \<and> distinct (history_after trim calls)"
proof (induction calls rule: rev_induct)
  case Nil
  show ?case by (simp add: history_after_def)
next
  case (snoc c calls)
  obtain t s where c: "c = (t, s)" by (cases c)
  have "history_after trim (calls @ [c]) = searchApps_history trim t s (history_after trim calls)"
    by (simp add: history_after_def c)
  with snoc searchApps_history_inv [of "history_after trim calls" trim t s] show ?case by simp
qed

lemma filter_neq_removeAll: "filter (\<lambda>t. t \<noteq> v) prev = removeAll v prev"
  by (induction prev) auto

lemma newHistory_Cons: "newHistory v prev = v # take 4 (removeAll v prev)"
  by (simp add: newHistory_def filter_neq_removeAll)

text \<open>
  Claim C6. After any sequence of \<open>searchApps\<close> calls that starts from the empty history,
  the history has at most five entries and no term twice. An insertion puts the term at the
  front, keeps no other occurrence of it, and leaves the remaining terms in their order
  (cut to four); a call with a non-blank search value is such an insertion.
\<close>

theorem search_history_invariant:
  "length (history_after trim calls) \<le> 5 \<and> distinct (history_after trim calls) \<and>
   newHistory v prev = v # take 4 (removeAll v prev) \<and>
   hd (newHistory v prev) = v \<and> v \<notin> set (tl (newHistory v prev)) \<and>
   (trim (searchValue_of t s) \<noteq> [] \<longrightarrow>
      searchApps_history trim t s prev = newHistory (searchValue_of t s) prev)"
proof -
  have "v \<notin> set (take 4 (removeAll v prev))"
    using set_take_subset [of 4 "removeAll v prev"] by auto
  then show ?thesis
    by (simp add: history_after_inv newHistory_Cons searchApps_history_def Let_def)
qed

theorem search_history_invariant_witness:
  "length (history_after (\<lambda>str. str) [(None, ''maps''), (Some ''mail'', ''''), (None, ''maps'')]) \<le> 5 \<and>
   distinct (history_after (\<lambda>str. str) [(None, ''maps''), (Some ''mail'', ''''), (None, ''maps'')]) \<and>
   newHistory ''maps'' [''mail'', ''maps''] = ''maps'' # take 4 (removeAll ''maps'' [''mail'', ''maps'']) \<and>
   hd (newHistory ''maps'' [''mail'', ''maps'']) = ''maps'' \<and>
   ''maps'' \<notin> set (tl (newHistory ''maps'' [''mail'', ''maps''])) \<and>
   (\<lambda>str. str) (searchValue_of None ''maps'') \<noteq> [] \<and>
   searchApps_history (\<lambda>str. str) None ''maps'' [''mail'', ''maps''] = [''maps'', ''mail'']"
  using search_history_invariant
    [of "\<lambda>str. str" "[(None, ''maps''), (Some ''mail'', ''''), (None, ''maps'')]" "''maps''"
        "[''mail'', ''maps'']" None "''maps''"]
  by (simp add: searchValue_of_def)

section \<open>Hue distance (hueDistance)\<close>

text \<open>
  Finite JavaScript numbers are modelled as rationals and their arithmetic as exact.
  \<open>js_rem\<close> is the \<open>%\<close> operator on finite operands with a non-zero divisor: the result
  takes the sign of the dividend, \<open>x - y * trunc (x / y)\<close>.
\<close>

definition trunc :: "rat \<Rightarrow> int" where
  "trunc q = (if 0 \<le> q then \<lfloor>q\<rfloor> else \<lceil>q\<rceil>)"

definition js_rem :: "rat \<Rightarrow> rat \<Rightarrow> rat" where
  "js_rem x y = x - y * of_int (trunc (x / y))"

text \<open>
  \<^verbatim>\<open>const d = Math.abs(a - b) % 360; return d > 180 ? 360 - d : d;\<close>
\<close>

definition hueDistance :: "rat \<Rightarrow> rat \<Rightarrow> rat" where
  "hueDistance a b = (let d = js_rem \<bar>a - b\<bar> 360 in if d > 180 then 360 - d else d)"

lemma js_rem_small: "0 \<le> x \<Longrightarrow> x < y \<Longrightarrow> js_rem x y = x"
proof -
  assume a: "0 \<le> x" "x < y"
  then have "0 \<le> x / y" "x / y < 1" by simp_all
  then have "\<lfloor>x / y\<rfloor> = 0" by linarith
  with \<open>0 \<le> x / y\<close> show ?thesis by (simp add: js_rem_def trunc_def)
qed

text \<open>
  Claim C9. \<open>hueDistance\<close> is symmetric, is 0 on equal hues, equals the circular distance
  \<open>min ( |a - b| ) (360 - |a - b| )\<close> for hues in [0, 360), and is 20 between 10 and 350.
\<close>

theorem hueDistance_circular:
  "hueDistance a b = hueDistance b a \<and> hueDistance h h = 0 \<and>
   (0 \<le> a \<and> a < 360 \<and> 0 \<le> b \<and> b < 360 \<longrightarrow>
      hueDistance a b = min \<bar>a - b\<bar> (360 - \<bar>a - b\<bar>)) \<and>
   hueDistance 10 350 = 20"
proof (intro conjI impI)
  show "hueDistance a b = hueDistance b a"
    by (simp add: hueDistance_def abs_minus_commute)
  show "hueDistance h h = 0"
    by (simp add: hueDistance_def js_rem_def trunc_def)
  show "hueDistance 10 350 = 20"
    by (simp add: hueDistance_def js_rem_small)
next
  assume r: "0 \<le> a \<and> a < 360 \<and> 0 \<le> b \<and> b < 360"
  then have "0 \<le> \<bar>a - b\<bar>" "\<bar>a - b\<bar> < 360" by (simp_all add: abs_less_iff) 
  then have "js_rem \<bar>a - b\<bar> 360 = \<bar>a - b\<bar>" by (rule js_rem_small)
  then show "hueDistance a b = min \<bar>a - b\<bar> (360 - \<bar>a - b\<bar>)"
    by (simp add: hueDistance_def min_def)
qed

theorem hueDistance_circular_witness:
  "(0 \<le> (10::rat) \<and> (10::rat) < 360 \<and> 0 \<le> (350::rat) \<and> (350::rat) < 360) \<and>
   hueDistance 10 350 = min \<bar>10 - 350\<bar> (360 - \<bar>10 - 350\<bar>) \<and>
   hueDistance 10 350 = hueDistance 350 10 \<and> hueDistance 77 77 = 0"
  using hueDistance_circular [of 10 350 77] by simp

section \<open>Store records and the metadata lookup (AppService.getAppDetails)\<close>

text \<open>
  A value of a loosely typed JSON cell or field. \<open>undefined\<close> and \<open>null\<close> are one
  constructor: the code tests both with \<open>!= null\<close> or \<open>??\<close> only. Numbers are the
  integers (the identifiers of the sheet and of the store) and the three non-finite
  values; \<open>String\<close> and \<open>toString\<close> of an integer give its decimal notation, as JavaScript
  does below \<open>10^21\<close>.
\<close>

datatype number = Num int | NaN | PosInfinity | NegInfinity

datatype jsval = JNull | JBool bool | JNum number | JStr string

datatype error = TypeError | FetchError

definition digit_char :: "nat \<Rightarrow> char" where
  "digit_char d = ''0123456789'' ! d"

fun digits :: "nat \<Rightarrow> string" where
  "digits n = (if n < 10 then [digit_char n] else digits (n div 10) @ [digit_char (n mod 10)])"

definition int_toString :: "int \<Rightarrow> string" where
  "int_toString i = (if i < 0 then CHR ''-'' # digits (nat (- i)) else digits (nat i))"

text \<open>
  \<open>AppWithDetails\<close>, the fields of a store record that the code reads. \<open>trackName\<close> is a
  \<open>jsval\<close> because the join below copies a catalog name into it.
\<close>

record AppWithDetails =
  trackId :: int
  trackName :: jsval
  artworkUrl100 :: string
  dominantColor :: "string option"

text \<open>
  The body of a lookup response: \<open>results\<close> may be absent (\<open>result.results || []\<close>).
\<close>

record LookupResponse =
  results :: "AppWithDetails list option"

definition batchSize :: nat where
  "batchSize = 10"

text \<open>
  \<^verbatim>\<open>for (let i = 0; i < appStoreIds.length; i += batchSize)
    batches.push(appStoreIds.slice(i, i + batchSize))\<close>
\<close>

function batches_from :: "nat \<Rightarrow> 'a list \<Rightarrow> 'a list list" where
  "batches_from i appStoreIds =
     (if i < length appStoreIds
      then take batchSize (drop i appStoreIds) # batches_from (i + batchSize) appStoreIds
      else [])"
  by pat_completeness auto
termination
  by (relation "measure (\<lambda>(i, ids). length ids - i)") (auto simp: batchSize_def)

definition batches :: "'a list \<Rightarrow> 'a list list" where
  "batches appStoreIds = batches_from 0 appStoreIds"

text \<open>\<open>batch.join(',')\<close>\<close>

fun join_comma :: "string list \<Rightarrow> string" where
  "join_comma [] = []"
| "join_comma [x] = x"
| "join_comma (x # y # ys) = x @ '','' @ join_comma (y # ys)"

text \<open>
  \<open>getItunesUrl\<close>; \<open>production\<close> stands for the test on \<open>window.location.hostname\<close>.
\<close>

definition getItunesUrl :: "bool \<Rightarrow> string \<Rightarrow> string" where
  "getItunesUrl production ids =
     (if production then ''/api/itunes?id='' @ ids else ''https://itunes.apple.com/lookup?id='' @ ids)"

text \<open>The URLs requested: one \<open>fetch\<close> for each batch, all issued by \<open>batches.map\<close>.\<close>

definition requests :: "bool \<Rightarrow> string list \<Rightarrow> string list" where
  "requests production appStoreIds = map (\<lambda>batch. getItunesUrl production (join_comma batch)) (batches appStoreIds)"

text \<open>\<open>Promise.all\<close>: the list of the results, or a rejection when a promise rejects.\<close>

fun promise_all :: "(error + 'a) list \<Rightarrow> error + 'a list" where
  "promise_all [] = Inr []"
| "promise_all (Inl e # ps) = Inl e"
| "promise_all (Inr x # ps) = (case promise_all ps of Inl e \<Rightarrow> Inl e | Inr xs \<Rightarrow> Inr (x # xs))"

definition results_or_empty :: "LookupResponse \<Rightarrow> AppWithDetails list" where
  "results_or_empty result = (case results result of None \<Rightarrow> [] | Some rs \<Rightarrow> rs)"

text \<open>
  \<open>getAppDetails\<close>. \<open>fetch\<close> is the network: the parsed body of the response to a URL, or
  a failure, of the request, of \<open>res.json()\<close>, or of reading \<open>results\<close> from a body that
  is \<open>null\<close>. One failure rejects the whole call; the \<open>catch\<close> logs and rethrows.
\<close>

definition getAppDetails ::
  "bool \<Rightarrow> (string \<Rightarrow> error + LookupResponse) \<Rightarrow> string list \<Rightarrow> error + AppWithDetails list" where
  "getAppDetails production fetch appStoreIds =
     (case promise_all (map fetch (requests production appStoreIds)) of
        Inl e \<Rightarrow> Inl e
      | Inr rs \<Rightarrow> Inr (concat (map results_or_empty rs)))"

declare batches_from.simps [simp del]

lemma concat_batches_from: "concat (batches_from i xs) = drop i xs"
proof (induction i xs rule: batches_from.induct)
  case (1 i xs)
  show ?case
  proof (cases "i < length xs")
    case True
    have "take batchSize (drop i xs) @ drop (i + batchSize) xs = drop i xs"
      by (metis add.commute append_take_drop_id drop_drop)
    with True 1 show ?thesis by (simp add: batches_from.simps [of i xs])
  next
    case False
    then show ?thesis by (simp add: batches_from.simps [of i xs])
  qed
qed

lemma batch_count_step:
  "i < n \<Longrightarrow> Suc ((n - (i + 10) + 9) div 10) = (n - i + 9) div (10::nat)"
proof -
  assume "i < n"
  then obtain d where n: "n = Suc (i + d)" using less_iff_Suc_add by auto
  show ?thesis
  proof (cases "9 \<le> d")
    case True
    then have "n - (i + 10) + 9 = d" "n - i + 9 = d + 10" using n by simp_all
    then show ?thesis by simp
  next
    case False
    then have "n - (i + 10) + 9 = 9" "n - i + 9 = d + 10" using n by simp_all
    moreover have "(d + 10) div 10 = 1" using False by simp
    ultimately show ?thesis by simp
  qed
qed

lemma ceiling_div_10: "int ((n + 9) div 10) = \<lceil>rat_of_nat n / 10\<rceil>"
proof -
  have "\<lceil>rat_of_nat n / 10\<rceil> = \<lceil>rat_of_int (int n) / rat_of_int 10\<rceil>" by simp
  also have "\<dots> = - (- int n div 10)" by (rule ceiling_divide_eq_div)
  also have "\<dots> = (int n + 9) div 10" by linarith
  finally show ?thesis by (simp add: zdiv_int)
qed

lemma length_batches_from: "length (batches_from i xs) = (length xs - i + 9) div 10"
proof (induction i xs rule: batches_from.induct)
  case (1 i xs)
  show ?case
  proof (cases "i < length xs")
    case True
    with 1 have "length (batches_from i xs) = Suc ((length xs - (i + 10) + 9) div 10)"
      by (simp add: batches_from.simps [of i xs] batchSize_def)
    also have "\<dots> = (length xs - i + 9) div 10" using True by (rule batch_count_step)
    finally show ?thesis .
  next
    case False
    then show ?thesis by (simp add: batches_from.simps [of i xs])
  qed
qed

lemma nth_batches_from:
  "k < length (batches_from i xs) \<Longrightarrow> batches_from i xs ! k = take 10 (drop (i + 10 * k) xs)"
proof (induction i xs arbitrary: k rule: batches_from.induct)
  case (1 i xs)
  show ?case
  proof (cases "i < length xs")
    case True
    show ?thesis
    proof (cases k)
      case 0
      with True show ?thesis by (simp add: batches_from.simps [of i xs] batchSize_def)
    next
      case (Suc j)
      with True "1.prems" have "j < length (batches_from (i + batchSize) xs)"
        by (simp add: batches_from.simps [of i xs])
      with True have "batches_from (i + batchSize) xs ! j = take 10 (drop (i + batchSize + 10 * j) xs)"
        by (rule "1.IH")
      with True Suc show ?thesis
        by (simp add: batches_from.simps [of i xs] batchSize_def add.assoc)
    qed
  next
    case False
    with "1.prems" show ?thesis by (simp add: batches_from.simps [of i xs])
  qed
qed

lemma promise_all_length: "promise_all ps = Inr xs \<Longrightarrow> length xs = length ps"
  by (induction ps arbitrary: xs rule: promise_all.induct) (auto split: sum.splits)

lemma promise_all_map_Inr: "promise_all (map Inr xs) = Inr xs"
  by (induction xs) simp_all

lemma batches_from_bounds:
  "b \<in> set (batches_from i xs) \<Longrightarrow> 1 \<le> length b \<and> length b \<le> 10"
proof (induction i xs rule: batches_from.induct)
  case (1 i xs)
  show ?case
  proof (cases "i < length xs")
    case True
    with "1.prems" have "b = take batchSize (drop i xs) \<or> b \<in> set (batches_from (i + batchSize) xs)"
      by (simp add: batches_from.simps [of i xs])
    then show ?thesis
    proof
      assume "b = take batchSize (drop i xs)"
      with True show ?thesis by (simp add: batchSize_def)
    next
      assume "b \<in> set (batches_from (i + batchSize) xs)"
      with True show ?thesis by (rule "1.IH")
    qed
  next
    case False
    with "1.prems" show ?thesis by (simp add: batches_from.simps [of i xs])
  qed
qed

text \<open>
  Claim C5. The \<open>N\<close> identifiers are cut into \<open>ceil (N / 10)\<close> batches, the \<open>k\<close>-th being
  the slice of (at most) ten identifiers from position \<open>10 * k\<close>, none empty; the batches
  concatenate to the input; one URL is requested for each batch; and when every request
  succeeds the result is the concatenation of the batches' result lists in batch order,
  its length the sum of their lengths.
\<close>

theorem getAppDetails_batching:
  "int (length (batches ids)) = \<lceil>rat_of_nat (length ids) / 10\<rceil> \<and>
   concat (batches ids) = ids \<and>
   (\<forall>b \<in> set (batches ids). 1 \<le> length b \<and> length b \<le> 10) \<and>
   (\<forall>k < length (batches ids). batches ids ! k = take 10 (drop (10 * k) ids)) \<and>
   requests production ids = map (\<lambda>b. getItunesUrl production (join_comma b)) (batches ids) \<and>
   length (requests production ids) = length (batches ids) \<and>
   (map fetch (requests production ids) = map Inr rs \<longrightarrow>
      length rs = length (batches ids) \<and>
      getAppDetails production fetch ids = Inr (concat (map results_or_empty rs)) \<and>
      length (concat (map results_or_empty rs)) = sum_list (map (\<lambda>r. length (results_or_empty r)) rs))"
proof (intro conjI impI ballI allI)
  show "int (length (batches ids)) = \<lceil>rat_of_nat (length ids) / 10\<rceil>"
    by (simp add: batches_def length_batches_from ceiling_div_10 [symmetric])
  show "concat (batches ids) = ids"
    by (simp add: batches_def concat_batches_from)
  show "requests production ids = map (\<lambda>b. getItunesUrl production (join_comma b)) (batches ids)"
    by (simp add: requests_def)
  show "length (requests production ids) = length (batches ids)"
    by (simp add: requests_def)
next
  fix b assume "b \<in> set (batches ids)"
  then show "1 \<le> length b" "length b \<le> 10"
    using batches_from_bounds [of b 0 ids] by (simp_all add: batches_def)
next
  fix k assume "k < length (batches ids)"
  then show "batches ids ! k = take 10 (drop (10 * k) ids)"
    using nth_batches_from [of k 0 ids] by (simp add: batches_def)
next
  assume ok: "map fetch (requests production ids) = map Inr rs"
  from ok have "length (map fetch (requests production ids)) = length (map Inr rs)" by simp
  then show "length rs = length (batches ids)" by (simp add: requests_def)
  from ok show "getAppDetails production fetch ids = Inr (concat (map results_or_empty rs))"
    by (simp add: getAppDetails_def promise_all_map_Inr)
  show "length (concat (map results_or_empty rs)) = sum_list (map (\<lambda>r. length (results_or_empty r)) rs)"
    by (simp add: length_concat comp_def)
qed

lemma batches_twelve:
  "batches [''310'', ''311'', ''312'', ''313'', ''314'', ''315'', ''316'', ''317'', ''318'', ''319'', ''320'', ''321''] =
     [[''310'', ''311'', ''312'', ''313'', ''314'', ''315'', ''316'', ''317'', ''318'', ''319''], [''320'', ''321'']]"
  by (simp add: batches_def batches_from.simps batchSize_def)

theorem getAppDetails_batching_witness:
  "map (\<lambda>u. if u = ''https://itunes.apple.com/lookup?id=320,321''
             then Inr \<lparr>results = None\<rparr>
             else Inr \<lparr>results = Some [\<lparr>trackId = 2, trackName = JStr ''Two'', artworkUrl100 = ''u2'', dominantColor = None\<rparr>,
                                        \<lparr>trackId = 1, trackName = JStr ''One'', artworkUrl100 = ''u1'', dominantColor = None\<rparr>]\<rparr>)
     (requests False [''310'', ''311'', ''312'', ''313'', ''314'', ''315'', ''316'', ''317'', ''318'', ''319'', ''320'', ''321''])
   = map Inr [\<lparr>results = Some [\<lparr>trackId = 2, trackName = JStr ''Two'', artworkUrl100 = ''u2'', dominantColor = None\<rparr>,
                                \<lparr>trackId = 1, trackName = JStr ''One'', artworkUrl100 = ''u1'', dominantColor = None\<rparr>]\<rparr>,
              \<lparr>results = None\<rparr>] \<and>
   length (batches [''310'', ''311'', ''312'', ''313'', ''314'', ''315'', ''316'', ''317'', ''318'', ''319'', ''320'', ''321'']) = 2 \<and>
   requests False [''310'', ''311'', ''312'', ''313'', ''314'', ''315'', ''316'', ''317'', ''318'', ''319'', ''320'', ''321''] =
     [''https://itunes.apple.com/lookup?id=310,311,312,313,314,315,316,317,318,319'', ''https://itunes.apple.com/lookup?id=320,321''] \<and>
   getAppDetails False
     (\<lambda>u. if u = ''https://itunes.apple.com/lookup?id=320,321''
          then Inr \<lparr>results = None\<rparr>
          else Inr \<lparr>results = Some [\<lparr>trackId = 2, trackName = JStr ''Two'', artworkUrl100 = ''u2'', dominantColor = None\<rparr>,
                                     \<lparr>trackId = 1, trackName = JStr ''One'', artworkUrl100 = ''u1'', dominantColor = None\<rparr>]\<rparr>)
     [''310'', ''311'', ''312'', ''313'', ''314'', ''315'', ''316'', ''317'', ''318'', ''319'', ''320'', ''321''] =
   Inr [\<lparr>trackId = 2, trackName = JStr ''Two'', artworkUrl100 = ''u2'', dominantColor = None\<rparr>,
        \<lparr>trackId = 1, trackName = JStr ''One'', artworkUrl100 = ''u1'', dominantColor = None\<rparr>]"
proof -
  let ?ids = "[''310'', ''311'', ''312'', ''313'', ''314'', ''315'', ''316'', ''317'', ''318'', ''319'', ''320'', ''321'']"
  let ?r1 = "\<lparr>results = Some [\<lparr>trackId = 2, trackName = JStr ''Two'', artworkUrl100 = ''u2'', dominantColor = None\<rparr>,
                                \<lparr>trackId = 1, trackName = JStr ''One'', artworkUrl100 = ''u1'', dominantColor = None\<rparr>]\<rparr>"
  let ?fetch = "\<lambda>u. if u = ''https://itunes.apple.com/lookup?id=320,321''
             then Inr \<lparr>results = None\<rparr> else Inr ?r1 :: error + LookupResponse"
  have reqs: "requests False ?ids =
     [''https://itunes.apple.com/lookup?id=310,311,312,313,314,315,316,317,318,319'', ''https://itunes.apple.com/lookup?id=320,321'']"
    by (simp add: requests_def batches_twelve getItunesUrl_def)
  have ok: "map ?fetch (requests False ?ids) = map Inr [?r1, \<lparr>results = None\<rparr>]"
    by (simp add: reqs)
  from getAppDetails_batching [of ?ids False ?fetch "[?r1, \<lparr>results = None\<rparr>]"] ok
  have "getAppDetails False ?fetch ?ids = Inr (concat (map results_or_empty [?r1, \<lparr>results = None\<rparr>]))"
    by blast
  then show ?thesis
    using ok reqs by (simp add: results_or_empty_def batches_twelve)
qed

section \<open>Catalog records and the name join (loadAppsByCategory, searchApps)\<close>

text \<open>
  \<open>AppData\<close>, a catalog record as \<open>loadAppsFromSheet\<close> builds it. The casts of the loader
  (\<open>as string | null\<close>) are erased at run time, so \<open>name\<close> and \<open>category\<close> hold whatever
  value the cell held; \<open>category\<close> is \<open>None\<close> for \<open>undefined\<close>, as are the time stamps.
  The field \<open>id\<close> is called \<open>app_id\<close>.
\<close>

record AppData =
  app_id :: number
  name :: jsval
  app_store_id :: string
  category :: "jsval option"
  created_at :: "string option"
  updated_at :: "string option"

text \<open>
  The \<open>map\<close> callback of both joins:
  \<^verbatim>\<open>const dbApp = appsFromDb.find(dbApp => dbApp.app_store_id === app.trackId.toString());
  return { ...app, trackName: dbApp ? dbApp.name : app.trackName };\<close>
  \<open>find\<close> returns the first match, \<open>undefined\<close> when there is none.
\<close>

definition find_dbApp :: "AppData list \<Rightarrow> AppWithDetails \<Rightarrow> AppData option" where
  "find_dbApp appsFromDb app = find (\<lambda>dbApp. app_store_id dbApp = int_toString (trackId app)) appsFromDb"

definition override_name :: "AppData list \<Rightarrow> AppWithDetails \<Rightarrow> AppWithDetails" where
  "override_name appsFromDb app =
     (case find_dbApp appsFromDb app of
        Some dbApp \<Rightarrow> app\<lparr>trackName := name dbApp\<rparr>
      | None \<Rightarrow> app\<lparr>trackName := trackName app\<rparr>)"

text \<open>\<open>appDetails.map(...)\<close>; the \<open>sort\<close> that follows reorders the records and changes none.\<close>

definition join_names :: "AppData list \<Rightarrow> AppWithDetails list \<Rightarrow> AppWithDetails list" where
  "join_names appsFromDb appDetails = map (override_name appsFromDb) appDetails"

lemma find_dbApp_None:
  "find_dbApp catalog app = None \<longleftrightarrow>
   \<not> (\<exists>d \<in> set catalog. app_store_id d = int_toString (trackId app))"
  by (auto simp: find_dbApp_def find_None_iff)

lemma find_dbApp_Some:
  "find_dbApp catalog app = Some d \<Longrightarrow>
   d \<in> set catalog \<and> app_store_id d = int_toString (trackId app)"
  by (auto simp: find_dbApp_def find_Some_iff)

text \<open>
  Claim C7. The displayed \<open>trackName\<close> is the name of a catalog record whose \<open>app_store_id\<close>
  equals \<open>String(trackId)\<close> when such a record exists (the first one in catalog order), and
  the store's \<open>trackName\<close> otherwise; every other field is the store's; the override depends
  on the catalog and the store record only, so two store
  records with the same \<open>trackId\<close> get the same name from a matching catalog, and two runs on
  equal inputs agree.
\<close>

theorem join_name_override:
  "((\<exists>d \<in> set catalog. app_store_id d = int_toString (trackId app)) \<longrightarrow>
      (\<exists>d \<in> set catalog. app_store_id d = int_toString (trackId app) \<and>
          find_dbApp catalog app = Some d \<and>
          trackName (override_name catalog app) = name d)) \<and>
   (\<not> (\<exists>d \<in> set catalog. app_store_id d = int_toString (trackId app)) \<longrightarrow>
      trackName (override_name catalog app) = trackName app) \<and>
   trackId (override_name catalog app) = trackId app \<and>
   artworkUrl100 (override_name catalog app) = artworkUrl100 app \<and>
   (trackId app' = trackId app \<and> (\<exists>d \<in> set catalog. app_store_id d = int_toString (trackId app)) \<longrightarrow>
      trackName (override_name catalog app') = trackName (override_name catalog app)) \<and>
   (catalog' = catalog \<and> apps' = apps \<longrightarrow> join_names catalog' apps' = join_names catalog apps) \<and>
   map trackName (join_names catalog apps) = map (\<lambda>a. trackName (override_name catalog a)) apps"
proof (intro conjI impI)
  assume ex: "\<exists>d \<in> set catalog. app_store_id d = int_toString (trackId app)"
  then have "find_dbApp catalog app \<noteq> None" by (simp add: find_dbApp_None)
  then obtain d where d: "find_dbApp catalog app = Some d" by blast
  then have "d \<in> set catalog \<and> app_store_id d = int_toString (trackId app)"
    by (rule find_dbApp_Some)
  moreover from d have "trackName (override_name catalog app) = name d"
    by (simp add: override_name_def)
  ultimately show "\<exists>d \<in> set catalog. app_store_id d = int_toString (trackId app) \<and>
      find_dbApp catalog app = Some d \<and> trackName (override_name catalog app) = name d"
    using d by blast
next
  assume "\<not> (\<exists>d \<in> set catalog. app_store_id d = int_toString (trackId app))"
  then have "find_dbApp catalog app = None" by (simp add: find_dbApp_None)
  then show "trackName (override_name catalog app) = trackName app"
    by (simp add: override_name_def)
next
  show "trackId (override_name catalog app) = trackId app"
    by (simp add: override_name_def split: option.split)
  show "artworkUrl100 (override_name catalog app) = artworkUrl100 app"
    by (simp add: override_name_def split: option.split)
  show "map trackName (join_names catalog apps) = map (\<lambda>a. trackName (override_name catalog a)) apps"
    by (simp add: join_names_def)
next
  assume a: "trackId app' = trackId app \<and> (\<exists>d \<in> set catalog. app_store_id d = int_toString (trackId app))"
  then have "find_dbApp catalog app \<noteq> None" by (simp add: find_dbApp_None)
  then obtain d where d: "find_dbApp catalog app = Some d" by blast
  with a have "find_dbApp catalog app' = Some d" by (simp add: find_dbApp_def)
  with d show "trackName (override_name catalog app') = trackName (override_name catalog app)"
    by (simp add: override_name_def)
next
  assume "catalog' = catalog \<and> apps' = apps"
  then show "join_names catalog' apps' = join_names catalog apps" by simp
qed

theorem join_name_override_witness:
  "(\<exists>d \<in> set [\<lparr>app_id = Num 1, name = JStr ''Zeta'', app_store_id = ''111'', category = Some (JStr ''app''), created_at = None, updated_at = None\<rparr>,
                 \<lparr>app_id = Num 2, name = JStr ''Alpha'', app_store_id = ''222'', category = Some (JStr ''app''), created_at = None, updated_at = None\<rparr>].
      app_store_id d = int_toString (trackId \<lparr>trackId = 222, trackName = JStr ''Alpha - Store'', artworkUrl100 = ''u'', dominantColor = None\<rparr>)) \<and>
   trackName (override_name
      [\<lparr>app_id = Num 1, name = JStr ''Zeta'', app_store_id = ''111'', category = Some (JStr ''app''), created_at = None, updated_at = None\<rparr>,
       \<lparr>app_id = Num 2, name = JStr ''Alpha'', app_store_id = ''222'', category = Some (JStr ''app''), created_at = None, updated_at = None\<rparr>]
      \<lparr>trackId = 222, trackName = JStr ''Alpha - Store'', artworkUrl100 = ''u'', dominantColor = None\<rparr>) = JStr ''Alpha'' \<and>
   \<not> (\<exists>d \<in> set [\<lparr>app_id = Num 1, name = JStr ''Zeta'', app_store_id = ''111'', category = Some (JStr ''app''), created_at = None, updated_at = None\<rparr>].
      app_store_id d = int_toString (trackId \<lparr>trackId = 222, trackName = JStr ''Alpha - Store'', artworkUrl100 = ''u'', dominantColor = None\<rparr>)) \<and>
   trackName (override_name
      [\<lparr>app_id = Num 1, name = JStr ''Zeta'', app_store_id = ''111'', category = Some (JStr ''app''), created_at = None, updated_at = None\<rparr>]
      \<lparr>trackId = 222, trackName = JStr ''Alpha - Store'', artworkUrl100 = ''u'', dominantColor = None\<rparr>) = JStr ''Alpha - Store''"
proof -
  let ?z = "\<lparr>app_id = Num 1, name = JStr ''Zeta'', app_store_id = ''111'', category = Some (JStr ''app''), created_at = None, updated_at = None\<rparr>"
  let ?a = "\<lparr>app_id = Num 2, name = JStr ''Alpha'', app_store_id = ''222'', category = Some (JStr ''app''), created_at = None, updated_at = None\<rparr>"
  let ?s = "\<lparr>trackId = 222, trackName = JStr ''Alpha - Store'', artworkUrl100 = ''u'', dominantColor = None\<rparr>"
  have s: "int_toString 222 = ''222''" by (simp add: int_toString_def digit_char_def)
  have f: "find_dbApp [?z, ?a] ?s = Some ?a" by (simp add: find_dbApp_def s)
  from join_name_override [of "[?z, ?a]" ?s ?s "[?z, ?a]" "[]" "[]"] f s
  have 1: "trackName (override_name [?z, ?a] ?s) = JStr ''Alpha''" by simp
  from join_name_override [of "[?z]" ?s ?s "[?z]" "[]" "[]"] s
  have 2: "trackName (override_name [?z] ?s) = JStr ''Alpha - Store''" by simp
  from 1 2 s show ?thesis by simp
qed

section \<open>The grid of the combined sheet (generateCombinedCanvas)\<close>

text \<open>
  Counts and pixel sizes are natural numbers. \<open>Math.sqrt\<close> and the division are taken
  over the reals, as the source writes them.
  \<^verbatim>\<open>const cols = Math.ceil(Math.sqrt(n)); const rows = Math.ceil(n / cols);\<close>
  With \<open>n = 0\<close> the source divides 0 by 0: \<open>rows\<close> is \<open>NaN\<close>, here \<open>None\<close>.
\<close>

definition grid_cols :: "nat \<Rightarrow> nat" where
  "grid_cols n = nat \<lceil>sqrt (real n)\<rceil>"

definition grid_rows :: "nat \<Rightarrow> nat \<Rightarrow> nat option" where
  "grid_rows n cols = (if cols = 0 then None else Some (nat \<lceil>real n / real cols\<rceil>))"

record Options =
  cellSize :: "nat option"
  gap :: "nat option"

text \<open>
  \<^verbatim>\<open>const cell = options?.cellSize ?? 512;
  const gap = options?.gap ?? Math.round(cell * 0.06);\<close>
  \<open>Math.round\<close> of \<open>6 * cell / 100\<close> rounds halves up.
\<close>

definition cell_of :: "Options option \<Rightarrow> nat" where
  "cell_of options = (case options of None \<Rightarrow> 512
                      | Some opts \<Rightarrow> (case cellSize opts of None \<Rightarrow> 512 | Some c \<Rightarrow> c))"

definition gap_of :: "Options option \<Rightarrow> nat" where
  "gap_of options =
     (let dflt = (6 * cell_of options + 50) div 100
      in case options of None \<Rightarrow> dflt
         | Some opts \<Rightarrow> (case gap opts of None \<Rightarrow> dflt | Some g \<Rightarrow> g))"

text \<open>
  \<^verbatim>\<open>canvas.width = cols * cell + (cols + 1) * gap;
  canvas.height = rows * cell + (rows + 1) * gap;\<close>
  A \<open>NaN\<close> height is stored as 0.
\<close>

definition canvas_width :: "nat \<Rightarrow> Options option \<Rightarrow> nat" where
  "canvas_width n options = grid_cols n * cell_of options + (grid_cols n + 1) * gap_of options"

definition canvas_height :: "nat \<Rightarrow> Options option \<Rightarrow> nat" where
  "canvas_height n options =
     (case grid_rows n (grid_cols n) of
        None \<Rightarrow> 0
      | Some rows \<Rightarrow> rows * cell_of options + (rows + 1) * gap_of options)"

text \<open>
  The loop body, for image \<open>i\<close> (the loop runs for \<open>i < n\<close>, so \<open>cols\<close> is not 0 there):
  \<^verbatim>\<open>const col = i % cols; const row = Math.floor(i / cols);
  const tileX = gap + col * (cell + gap); const tileY = gap + row * (cell + gap);\<close>
\<close>

record Tile =
  col :: nat
  row :: nat
  tileX :: nat
  tileY :: nat

definition tile :: "nat \<Rightarrow> Options option \<Rightarrow> nat \<Rightarrow> Tile" where
  "tile n options i =
     (let cols = grid_cols n; cell = cell_of options; gap = gap_of options;
          col = i mod cols; row = i div cols
      in \<lparr>col = col, row = row,
          tileX = gap + col * (cell + gap), tileY = gap + row * (cell + gap)\<rparr>)"

definition tiles :: "nat \<Rightarrow> Options option \<Rightarrow> Tile list" where
  "tiles n options = map (tile n options) [0..<n]"

lemma grid_cols_bounds:
  assumes "1 \<le> n"
  shows "1 \<le> grid_cols n \<and> (grid_cols n - 1) * (grid_cols n - 1) < n \<and> n \<le> grid_cols n * grid_cols n"
proof -
  let ?s = "sqrt (real n)"
  let ?c = "\<lceil>?s\<rceil>"
  have s1: "1 \<le> ?s" using assms by simp
  then have c1: "1 \<le> ?c" by linarith
  then have c0: "0 \<le> ?c" by linarith
  have cn: "int (grid_cols n) = ?c" unfolding grid_cols_def using c0 by (rule nat_0_le)
  have up: "?s \<le> of_int ?c" by (rule le_of_int_ceiling)
  have lo: "of_int ?c - 1 < ?s" by linarith
  have "real n = ?s * ?s" by simp
  also have "\<dots> \<le> of_int ?c * of_int ?c"
  proof (rule mult_mono [OF up up])
    show "0 \<le> real_of_int ?c" using c0 by (simp only: of_int_0_le_iff)
    show "0 \<le> ?s" by simp
  qed
  finally have "real n \<le> real_of_int (?c * ?c)" by simp
  then have "int n \<le> ?c * ?c" by (metis of_int_le_iff of_int_of_nat_eq)
  then have a: "n \<le> grid_cols n * grid_cols n"
    using cn by (metis of_nat_le_iff of_nat_mult)
  have "0 \<le> real_of_int ?c - 1" using c1 by simp
  then have "(real_of_int ?c - 1) * (real_of_int ?c - 1) < ?s * ?s"
    using lo by (simp only: mult_strict_mono')
  then have "real_of_int ((?c - 1) * (?c - 1)) < real n" by simp
  then have "(?c - 1) * (?c - 1) < int n" by (metis of_int_less_iff of_int_of_nat_eq)
  moreover have "int (grid_cols n - 1) = ?c - 1" using cn c1 by linarith
  ultimately have "int ((grid_cols n - 1) * (grid_cols n - 1)) < int n" by simp
  then have b: "(grid_cols n - 1) * (grid_cols n - 1) < n" by (simp only: of_nat_less_iff)
  from c1 cn have "1 \<le> grid_cols n" by linarith
  with a b show ?thesis by simp
qed

lemma grid_cols_unique:
  assumes "(c - 1) * (c - 1) < n" "n \<le> c * c"
  shows "grid_cols n = c"
proof -
  have n1: "1 \<le> n" using assms(1) by simp
  let ?g = "grid_cols n"
  from grid_cols_bounds [OF n1]
  have g: "1 \<le> ?g" "(?g - 1) * (?g - 1) < n" "n \<le> ?g * ?g" by simp_all
  have c1: "1 \<le> c" using assms(2) n1 by (cases c) simp_all
  have "\<not> ?g < c"
  proof
    assume "?g < c"
    then have "?g \<le> c - 1" by simp
    then have "?g * ?g \<le> (c - 1) * (c - 1)" by (simp add: mult_le_mono)
    with g(3) assms(1) show False by simp
  qed
  moreover have "\<not> c < ?g"
  proof
    assume "c < ?g"
    then have "c \<le> ?g - 1" by simp
    then have "c * c \<le> (?g - 1) * (?g - 1)" by (simp add: mult_le_mono)
    with g(2) assms(2) show False by simp
  qed
  ultimately show ?thesis by simp
qed

lemma grid_rows_unique:
  assumes "(r - 1) * c < n" "n \<le> r * c"
  shows "grid_rows n c = Some r"
proof -
  have c0: "0 < c" using assms by (cases c) simp_all
  have r0: "0 < r" using assms by (cases r) simp_all
  have rc: "0 < real c" using c0 by simp
  have "real n \<le> real (r * c)" using assms(2) by (simp only: of_nat_le_iff)
  then have up: "real n / real c \<le> real_of_int (int r)"
    using rc by (simp add: pos_divide_le_eq)
  have "real ((r - 1) * c) < real n" using assms(1) by (simp only: of_nat_less_iff)
  moreover have "real (r - 1) = real r - 1" using r0 by (simp add: of_nat_diff)
  ultimately have "(real r - 1) * real c < real n" by simp
  then have lo: "real_of_int (int r) - 1 < real n / real c"
    using rc by (simp add: pos_less_divide_eq)
  from lo up have "\<lceil>real n / real c\<rceil> = int r" by (rule ceiling_unique)
  with c0 show ?thesis by (simp add: grid_rows_def)
qed

lemma ceil_div_bounds:
  assumes "1 \<le> n" "1 \<le> c"
  shows "((n + c - 1) div c - 1) * c < n \<and> n \<le> ((n + c - 1) div c) * (c::nat)"
proof -
  let ?q = "(n + c - 1) div c"
  let ?m = "(n + c - 1) mod c"
  have e: "?q * c + ?m = n + c - 1" by simp
  have m: "?m < c" using assms(2) by simp
  have q: "1 \<le> ?q" using assms by (simp add: Suc_le_eq div_greater_zero_iff)
  from q have "?q \<noteq> 0" by simp
  then obtain k where k: "?q = Suc k" using not0_implies_Suc by blast
  from e have "Suc k * c + ?m = n + c - 1" by (simp only: k)
  then have "c + k * c + ?m = n + c - 1" by (simp only: mult_Suc)
  with m assms have "k * c < n \<and> n \<le> k * c + c" by linarith
  with k show ?thesis by simp
qed

lemma grid_rows_eq:
  assumes "1 \<le> n" "1 \<le> c"
  shows "grid_rows n c = Some ((n + c - 1) div c)"
  using ceil_div_bounds [OF assms] by (simp add: grid_rows_unique)

lemma tile_in_grid:
  assumes "i < n" "grid_rows n c = Some r" "1 \<le> c"
  shows "i div c < r"
proof -
  have n1: "1 \<le> n" using assms(1) by simp
  from grid_rows_eq [OF n1 assms(3)] assms(2) have r: "r = (n + c - 1) div c" by simp
  from ceil_div_bounds [OF n1 assms(3)] r have "n \<le> r * c" by simp
  with assms(1) have "i < r * c" by simp
  then show ?thesis using assms(3) by (simp add: less_mult_imp_div_less)
qed

text \<open>
  Claim C8. For \<open>N \<ge> 1\<close> images the sheet has \<open>ceil (sqrt N)\<close> columns (the least \<open>c\<close> with
  \<open>N \<le> c * c\<close>) and \<open>ceil (N / columns)\<close> rows; the canvas is
  \<open>columns * cell + (columns + 1) * gap\<close> wide and \<open>rows * cell + (rows + 1) * gap\<close> high; image
  \<open>i\<close> lies in column \<open>i mod columns\<close> and row \<open>i div columns\<close>, inside the grid, its tile at
  \<open>gap + column * (cell + gap)\<close>, \<open>gap + row * (cell + gap)\<close>. One image gives 1 by 1, four give
  2 by 2, five give 3 columns by 2 rows.
\<close>

theorem combined_grid_layout:
  "(1 \<le> n \<longrightarrow>
      int (grid_cols n) = \<lceil>sqrt (real n)\<rceil> \<and>
      (grid_cols n - 1) * (grid_cols n - 1) < n \<and> n \<le> grid_cols n * grid_cols n \<and>
      grid_rows n (grid_cols n) = Some (nat \<lceil>real n / real (grid_cols n)\<rceil>) \<and>
      grid_rows n (grid_cols n) = Some ((n + grid_cols n - 1) div grid_cols n) \<and>
      canvas_width n options = grid_cols n * cell_of options + (grid_cols n + 1) * gap_of options \<and>
      canvas_height n options =
        nat \<lceil>real n / real (grid_cols n)\<rceil> * cell_of options +
        (nat \<lceil>real n / real (grid_cols n)\<rceil> + 1) * gap_of options \<and>
      (\<forall>i < n. col (tile n options i) = i mod grid_cols n \<and>
                row (tile n options i) = i div grid_cols n \<and>
                col (tile n options i) < grid_cols n \<and>
                row (tile n options i) < nat \<lceil>real n / real (grid_cols n)\<rceil> \<and>
                tileX (tile n options i) = gap_of options + (i mod grid_cols n) * (cell_of options + gap_of options) \<and>
                tileY (tile n options i) = gap_of options + (i div grid_cols n) * (cell_of options + gap_of options))) \<and>
   grid_cols 1 = 1 \<and> grid_rows 1 1 = Some 1 \<and>
   grid_cols 4 = 2 \<and> grid_rows 4 2 = Some 2 \<and>
   grid_cols 5 = 3 \<and> grid_rows 5 3 = Some 2"
proof (intro conjI impI allI)
  show "grid_cols 1 = 1" by (rule grid_cols_unique) simp_all
  show "grid_cols 4 = 2" by (rule grid_cols_unique) simp_all
  show "grid_cols 5 = 3" by (rule grid_cols_unique) simp_all
  show "grid_rows 1 1 = Some 1" by (rule grid_rows_unique) simp_all
  show "grid_rows 4 2 = Some 2" by (rule grid_rows_unique) simp_all
  show "grid_rows 5 3 = Some 2" by (rule grid_rows_unique) simp_all
next
  assume n: "1 \<le> n"
  note b = grid_cols_bounds [OF n]
  from b have c1: "1 \<le> grid_cols n" by simp
  have c0: "grid_cols n \<noteq> 0" using c1 by simp
  have "0 \<le> \<lceil>sqrt (real n)\<rceil>" by (smt (verit) ceiling_le_zero real_sqrt_ge_zero of_nat_0_le_iff zero_le_ceiling)
  then show "int (grid_cols n) = \<lceil>sqrt (real n)\<rceil>" by (simp add: grid_cols_def)
  from b show "(grid_cols n - 1) * (grid_cols n - 1) < n" by simp
  from b show "n \<le> grid_cols n * grid_cols n" by simp
  show rows: "grid_rows n (grid_cols n) = Some (nat \<lceil>real n / real (grid_cols n)\<rceil>)"
    using c0 by (simp add: grid_rows_def)
  show "grid_rows n (grid_cols n) = Some ((n + grid_cols n - 1) div grid_cols n)"
    using n c1 by (rule grid_rows_eq)
  show "canvas_width n options = grid_cols n * cell_of options + (grid_cols n + 1) * gap_of options"
    by (simp add: canvas_width_def)
  show "canvas_height n options =
        nat \<lceil>real n / real (grid_cols n)\<rceil> * cell_of options +
        (nat \<lceil>real n / real (grid_cols n)\<rceil> + 1) * gap_of options"
    by (simp add: canvas_height_def rows)
  fix i
  show "col (tile n options i) = i mod grid_cols n" by (simp add: tile_def Let_def)
  show "row (tile n options i) = i div grid_cols n" by (simp add: tile_def Let_def)
  show "tileX (tile n options i) = gap_of options + (i mod grid_cols n) * (cell_of options + gap_of options)"
    by (simp add: tile_def Let_def)
  show "tileY (tile n options i) = gap_of options + (i div grid_cols n) * (cell_of options + gap_of options)"
    by (simp add: tile_def Let_def)
  assume i: "i < n"
  show "col (tile n options i) < grid_cols n" using c1 by (simp add: tile_def Let_def)
  from tile_in_grid [OF i rows c1]
  show "row (tile n options i) < nat \<lceil>real n / real (grid_cols n)\<rceil>" by (simp add: tile_def Let_def)
qed

theorem combined_grid_layout_witness:
  "1 \<le> (5::nat) \<and> grid_cols 5 = 3 \<and> grid_rows 5 (grid_cols 5) = Some 2 \<and>
   canvas_width 5 (Some \<lparr>cellSize = Some 160, gap = Some 10\<rparr>) = 520 \<and>
   canvas_height 5 (Some \<lparr>cellSize = Some 160, gap = Some 10\<rparr>) = 350 \<and>
   tile 5 (Some \<lparr>cellSize = Some 160, gap = Some 10\<rparr>) 4 = \<lparr>col = 1, row = 1, tileX = 180, tileY = 180\<rparr> \<and>
   canvas_width 1 None = 574 \<and> canvas_height 1 None = 574"
proof -
  let ?o = "Some \<lparr>cellSize = Some 160, gap = Some 10\<rparr>"
  note t = combined_grid_layout [of 5 ?o]
  from t have c: "grid_cols 5 = 3" by simp
  from t c have r: "grid_rows 5 3 = Some 2" by simp
  from t c have w: "canvas_width 5 ?o = 3 * cell_of ?o + (3 + 1) * gap_of ?o" by simp
  from r c have h: "canvas_height 5 ?o = 2 * cell_of ?o + (2 + 1) * gap_of ?o"
    by (simp add: canvas_height_def)
  have o: "cell_of ?o = 160" "gap_of ?o = 10" by (simp_all add: cell_of_def gap_of_def)
  have tl: "tile 5 ?o 4 = \<lparr>col = 1, row = 1, tileX = 180, tileY = 180\<rparr>"
    by (simp add: tile_def c o)
  from combined_grid_layout [of 1 None] have c1: "grid_cols 1 = 1" and r1: "grid_rows 1 1 = Some 1"
    by simp_all
  from c1 r1 have s: "grid_cols (Suc 0) = Suc 0" "grid_rows (Suc 0) (Suc 0) = Some (Suc 0)"
    by simp_all
  have n: "cell_of None = 512" "gap_of None = 31" by (simp_all add: cell_of_def gap_of_def)
  have "canvas_width 1 None = 574" "canvas_height 1 None = 574"
    by (simp_all add: canvas_width_def canvas_height_def s n)
  with c r w h o tl show ?thesis by simp
qed

section \<open>The dominant colour of an icon (AppService.getDominantColor)\<close>

text \<open>
  \<open>x.toString(16)\<close> for a non-negative integer, and the padding of the source:
  \<^verbatim>\<open>const hex = x.toString(16); return hex.length === 1 ? '0' + hex : hex\<close>
\<close>

definition hex_digit :: "nat \<Rightarrow> char" where
  "hex_digit d = ''0123456789abcdef'' ! d"

fun toString16 :: "nat \<Rightarrow> string" where
  "toString16 n = (if n < 16 then [hex_digit n] else toString16 (n div 16) @ [hex_digit (n mod 16)])"

definition component_hex :: "8 word \<Rightarrow> string" where
  "component_hex x = (let hex = toString16 (unat x) in if length hex = 1 then CHR ''0'' # hex else hex)"

definition rgb_hex :: "8 word \<Rightarrow> 8 word \<Rightarrow> 8 word \<Rightarrow> string" where
  "rgb_hex r g b = CHR ''#'' # concat (map component_hex [r, g, b])"

text \<open>
  \<open>colorCounts\<close> is an object with string keys, none of them an array index, so
  \<open>Object.entries\<close> lists them in the order of their first insertion: an association list
  that a new key extends at the end.
  \<^verbatim>\<open>colorCounts[hex] = (colorCounts[hex] || 0) + 1\<close>
\<close>

fun bump :: "(string \<times> nat) list \<Rightarrow> string \<Rightarrow> (string \<times> nat) list" where
  "bump [] hex = [(hex, 0 + 1)]"
| "bump ((k, c) # rest) hex = (if k = hex then (k, c + 1) # rest else (k, c) # bump rest hex)"

text \<open>
  The sampling loop over \<open>imageData.data\<close>, four bytes a pixel, the fourth (alpha) unread:
  \<^verbatim>\<open>for (let i = 0; i < data.length; i += 4) { const r = data[i]; const g = data[i + 1];
    const b = data[i + 2]; ... }\<close>
  The buffer of an \<open>ImageData\<close> holds a multiple of four bytes. For a buffer that ends one
  or two bytes into a pixel, \<open>g\<close> or \<open>b\<close> is \<open>undefined\<close> and \<open>x.toString\<close> throws inside the
  \<open>onload\<close> handler: the promise is never resolved, which is \<open>None\<close>.
\<close>

fun sample :: "8 word list \<Rightarrow> (string \<times> nat) list \<Rightarrow> (string \<times> nat) list option" where
  "sample [] colorCounts = Some colorCounts"
| "sample (r # g # b # a # data) colorCounts = sample data (bump colorCounts (rgb_hex r g b))"
| "sample [r, g, b] colorCounts = Some (bump colorCounts (rgb_hex r g b))"
| "sample _ colorCounts = None"

text \<open>
  \<^verbatim>\<open>let maxCount = 0; let dominantColor = '#666666'
  for (const [color, count] of Object.entries(colorCounts))
    if (count > maxCount) { maxCount = count; dominantColor = color }\<close>
\<close>

fun most_common :: "(string \<times> nat) list \<Rightarrow> nat \<Rightarrow> string \<Rightarrow> string" where
  "most_common [] maxCount dominant = dominant"
| "most_common ((color, cnt) # entries) maxCount dominant =
     (if cnt > maxCount then most_common entries cnt color
      else most_common entries maxCount dominant)"

definition getDominantColor :: "8 word list \<Rightarrow> string option" where
  "getDominantColor data =
     (case sample data [] of
        None \<Rightarrow> None
      | Some colorCounts \<Rightarrow> Some (most_common colorCounts 0 ''#666666''))"

text \<open>The colour strings of the sampled pixels, in buffer order.\<close>

fun sampled :: "8 word list \<Rightarrow> string list option" where
  "sampled [] = Some []"
| "sampled (r # g # b # a # data) = map_option ((#) (rgb_hex r g b)) (sampled data)"
| "sampled [r, g, b] = Some [rgb_hex r g b]"
| "sampled _ = None"

text \<open>The distinct elements of a list in the order of their first occurrence.\<close>

definition firsts :: "'a list \<Rightarrow> 'a list" where
  "firsts xs = rev (remdups (rev xs))"

lemma sample_sampled: "sample data acc = map_option (foldl bump acc) (sampled data)"
  by (induction data acc rule: sample.induct) (simp_all add: option.map_comp comp_def)

lemma firsts_snoc: "firsts (xs @ [k]) = (if k \<in> set xs then firsts xs else firsts xs @ [k])"
  by (simp add: firsts_def)

lemma set_firsts: "set (firsts xs) = set xs"
  by (simp add: firsts_def)

lemma distinct_firsts: "distinct (firsts xs)"
  by (simp add: firsts_def)

lemma remdups_append_filter:
  "remdups (xs @ ys) = remdups (filter (\<lambda>x. x \<notin> set ys) xs) @ remdups ys"
  by (induction xs) auto

lemma firsts_split:
  "c \<notin> set pre \<Longrightarrow> \<exists>rest. firsts (pre @ c # post) = firsts pre @ c # rest \<and> set rest \<subseteq> set post"
proof -
  assume c: "c \<notin> set pre"
  have "remdups (rev post @ (c # rev pre)) =
        remdups (filter (\<lambda>x. x \<notin> set (c # rev pre)) (rev post)) @ remdups (c # rev pre)"
    by (rule remdups_append_filter)
  with c have "firsts (pre @ c # post) =
     firsts pre @ c # rev (remdups (filter (\<lambda>x. x \<notin> set (c # rev pre)) (rev post)))"
    by (simp add: firsts_def)
  moreover have "set (rev (remdups (filter (\<lambda>x. x \<notin> set (c # rev pre)) (rev post)))) \<subseteq> set post"
    by auto
  ultimately show ?thesis by blast
qed

lemma bump_map:
  "distinct ks \<Longrightarrow>
   bump (map (\<lambda>k. (k, f k)) ks) h =
     (if h \<in> set ks then map (\<lambda>k. (k, if k = h then f k + 1 else f k)) ks
      else map (\<lambda>k. (k, f k)) ks @ [(h, 1)])"
  by (induction ks) auto

lemma foldl_bump: "foldl bump [] cs = map (\<lambda>k. (k, count_list cs k)) (firsts cs)"
proof (induction cs rule: rev_induct)
  case Nil
  show ?case by (simp add: firsts_def)
next
  case (snoc h cs)
  have "foldl bump [] (cs @ [h]) = bump (map (\<lambda>k. (k, count_list cs k)) (firsts cs)) h"
    by (simp add: snoc)
  also have "\<dots> = map (\<lambda>k. (k, count_list (cs @ [h]) k)) (firsts (cs @ [h]))"
    by (auto simp add: bump_map distinct_firsts set_firsts firsts_snoc count_list_0_iff)
  finally show ?case .
qed

lemma most_common_none: "\<forall>e \<in> set es. snd e \<le> m \<Longrightarrow> most_common es m d = d"
  by (induction es m d rule: most_common.induct) auto

lemma most_common_split:
  "m < c \<Longrightarrow> \<forall>e \<in> set pre. snd e < c \<Longrightarrow> \<forall>e \<in> set post. snd e \<le> c \<Longrightarrow>
   most_common (pre @ (k, c) # post) m d = k"
proof (induction pre arbitrary: m d)
  case Nil
  then show ?case by (simp add: most_common_none)
next
  case (Cons e pre)
  obtain k' c' where e: "e = (k', c')" by (cases e)
  with Cons.prems have "c' < c" by simp
  with Cons e show ?case by simp
qed

lemma most_common_first_max:
  assumes "cs \<noteq> []"
  shows "\<exists>c pre post. cs = pre @ c # post \<and> c \<notin> set pre \<and>
           (\<forall>k \<in> set pre. count_list cs k < count_list cs c) \<and>
           (\<forall>k. count_list cs k \<le> count_list cs c) \<and>
           most_common (foldl bump [] cs) 0 d = c"
proof -
  let ?f = "count_list cs"
  let ?M = "Max (?f ` set cs)"
  have ne: "?f ` set cs \<noteq> {}" and fin: "finite (?f ` set cs)" using assms by simp_all
  from Max_in [OF fin ne] have "\<exists>x \<in> set cs. ?f x = ?M" by auto
  then obtain pre c post where
    cs: "cs = pre @ c # post" and c: "?f c = ?M" and pre: "\<forall>y \<in> set pre. ?f y \<noteq> ?M"
    using split_list_first_prop [of cs "\<lambda>x. ?f x = ?M"] by blast
  have le_in: "?f k \<le> ?M" if "k \<in> set cs" for k
    using that fin by (simp add: Max_ge)
  have le: "?f k \<le> ?M" for k
  proof (cases "k \<in> set cs")
    case True
    then show ?thesis by (rule le_in)
  next
    case False
    then show ?thesis by (simp add: count_list_0_iff)
  qed
  have cpre: "c \<notin> set pre" using c pre by blast
  have lt: "\<forall>k \<in> set pre. ?f k < ?M"
  proof
    fix k assume k: "k \<in> set pre"
    with pre have "?f k \<noteq> ?M" by blast
    with le [of k] show "?f k < ?M" by simp
  qed
  have "c \<in> set cs" using cs by simp
  then have "?f c \<noteq> 0" by (simp add: count_list_0_iff)
  with c have pos: "0 < ?M" by simp
  from firsts_split [OF cpre, of post] cs
  obtain rest where rest: "firsts cs = firsts pre @ c # rest" by auto
  have "foldl bump [] cs = map (\<lambda>k. (k, ?f k)) (firsts pre) @ (c, ?M) # map (\<lambda>k. (k, ?f k)) rest"
    by (simp add: foldl_bump rest c)
  moreover have "most_common (map (\<lambda>k. (k, ?f k)) (firsts pre) @ (c, ?M) # map (\<lambda>k. (k, ?f k)) rest) 0 d = c"
  proof (rule most_common_split [OF pos])
    show "\<forall>e \<in> set (map (\<lambda>k. (k, ?f k)) (firsts pre)). snd e < ?M"
      using lt by (simp add: set_firsts)
    show "\<forall>e \<in> set (map (\<lambda>k. (k, ?f k)) rest). snd e \<le> ?M"
      using le by simp
  qed
  ultimately have "most_common (foldl bump [] cs) 0 d = c" by simp
  with cs cpre lt le c show ?thesis by metis
qed

lemma sampled_length:
  "length data mod 4 = 0 \<Longrightarrow> \<exists>cs. sampled data = Some cs \<and> 4 * length cs = length data"
  by (induction data rule: sampled.induct) auto

lemma toString16_byte:
  assumes "n < 256"
  shows "(if length (toString16 n) = 1 then CHR ''0'' # toString16 n else toString16 n) =
         [hex_digit (n div 16), hex_digit (n mod 16)]"
proof (cases "n < 16")
  case True
  then show ?thesis by (simp add: hex_digit_def)
next
  case False
  with assms have "n div 16 < 16" by simp
  then have "toString16 (n div 16) = [hex_digit (n div 16)]" by simp
  with False show ?thesis by (simp add: toString16.simps [of n])
qed

lemma component_hex_digits:
  "component_hex x = [hex_digit (unat x div 16), hex_digit (unat x mod 16)]"
proof -
  have "unat x < 2 ^ LENGTH(8)" by (rule unsigned_less)
  then have "unat x < 256" by simp
  then show ?thesis unfolding component_hex_def Let_def by (rule toString16_byte)
qed

lemma hex_digit_inj: "a < 16 \<Longrightarrow> b < 16 \<Longrightarrow> hex_digit a = hex_digit b \<Longrightarrow> a = b"
proof -
  assume a: "a < 16" and b: "b < 16" and e: "hex_digit a = hex_digit b"
  have d: "distinct ''0123456789abcdef''" by simp
  have l: "length ''0123456789abcdef'' = 16" by simp
  from e have "''0123456789abcdef'' ! a = ''0123456789abcdef'' ! b" by (simp only: hex_digit_def)
  with d a b l show "a = b" by (simp only: nth_eq_iff_index_eq)
qed

lemma component_hex_inj: "component_hex x = component_hex y \<Longrightarrow> x = y"
proof -
  assume "component_hex x = component_hex y"
  then have e: "hex_digit (unat x div 16) = hex_digit (unat y div 16)"
                "hex_digit (unat x mod 16) = hex_digit (unat y mod 16)"
    by (simp_all add: component_hex_digits)
  have "unat x < 2 ^ LENGTH(8)" "unat y < 2 ^ LENGTH(8)" by (rule unsigned_less)+
  then have "unat x < 256" "unat y < 256" by simp_all
  then have "unat x div 16 < 16" "unat y div 16 < 16" by simp_all
  with e(1) have q: "unat x div 16 = unat y div 16" using hex_digit_inj by blast
  have "unat x mod 16 < 16" "unat y mod 16 < 16" by simp_all
  with e(2) have r: "unat x mod 16 = unat y mod 16" using hex_digit_inj by blast
  have "unat x = 16 * (unat x div 16) + unat x mod 16" by simp
  also have "\<dots> = 16 * (unat y div 16) + unat y mod 16" by (simp only: q r)
  also have "\<dots> = unat y" by simp
  finally show "x = y" by (simp only: word_unat_eq_iff)
qed

lemma rgb_hex_inj: "rgb_hex r g b = rgb_hex r' g' b' \<longleftrightarrow> r = r' \<and> g = g' \<and> b = b'"
proof
  assume "rgb_hex r g b = rgb_hex r' g' b'"
  then have "component_hex r = component_hex r' \<and> component_hex g = component_hex g' \<and>
             component_hex b = component_hex b'"
    by (simp add: rgb_hex_def component_hex_digits)
  then show "r = r' \<and> g = g' \<and> b = b'" by (simp add: component_hex_inj)
next
  assume "r = r' \<and> g = g' \<and> b = b'"
  then show "rgb_hex r g b = rgb_hex r' g' b'" by simp
qed

lemma rgb_hex_length: "length (rgb_hex r g b) = 7"
  by (simp add: rgb_hex_def component_hex_digits)

lemma sampled_hex: "sampled data = Some cs \<Longrightarrow> c \<in> set cs \<Longrightarrow> length c = 7"
  by (induction data arbitrary: cs rule: sampled.induct) (auto simp: rgb_hex_length)

text \<open>
  Claim C4. A buffer of whole pixels is sampled pixel by pixel, alpha unread, each pixel
  giving a \<open>#\<close> and six hexadecimal digits that determine its red, green and blue bytes. The
  result is the fallback \<open>#666666\<close> when no pixel is sampled; otherwise it is a sampled
  colour that no colour outnumbers, and every colour seen before its first occurrence has a
  strictly smaller count (among the most frequent colours the first seen wins).
\<close>

theorem dominant_color_most_frequent:
  "(length data mod 4 = 0 \<longrightarrow> (\<exists>cs. sampled data = Some cs \<and> 4 * length cs = length data)) \<and>
   (sampled data = Some cs \<longrightarrow>
      (\<exists>c. getDominantColor data = Some c \<and>
           (cs = [] \<longrightarrow> c = ''#666666'') \<and>
           (cs \<noteq> [] \<longrightarrow>
              length c = 7 \<and> (\<forall>k. count_list cs k \<le> count_list cs c) \<and>
              (\<exists>pre post. cs = pre @ c # post \<and> c \<notin> set pre \<and>
                  (\<forall>k \<in> set pre. count_list cs k < count_list cs c))))) \<and>
   (rgb_hex r g b = rgb_hex r' g' b' \<longleftrightarrow> r = r' \<and> g = g' \<and> b = b')"
proof (intro conjI impI)
  assume "length data mod 4 = 0"
  then show "\<exists>cs. sampled data = Some cs \<and> 4 * length cs = length data"
    by (rule sampled_length)
next
  show "rgb_hex r g b = rgb_hex r' g' b' \<longleftrightarrow> r = r' \<and> g = g' \<and> b = b'"
    by (rule rgb_hex_inj)
next
  assume s: "sampled data = Some cs"
  then have g: "getDominantColor data = Some (most_common (foldl bump [] cs) 0 ''#666666'')"
    by (simp add: getDominantColor_def sample_sampled)
  show "\<exists>c. getDominantColor data = Some c \<and>
           (cs = [] \<longrightarrow> c = ''#666666'') \<and>
           (cs \<noteq> [] \<longrightarrow>
              length c = 7 \<and> (\<forall>k. count_list cs k \<le> count_list cs c) \<and>
              (\<exists>pre post. cs = pre @ c # post \<and> c \<notin> set pre \<and>
                  (\<forall>k \<in> set pre. count_list cs k < count_list cs c)))"
  proof (cases "cs = []")
    case True
    with g show ?thesis by simp
  next
    case False
    from most_common_first_max [OF False, of "''#666666''"]
    obtain c pre post where c: "cs = pre @ c # post" "c \<notin> set pre"
      "\<forall>k \<in> set pre. count_list cs k < count_list cs c"
      "\<forall>k. count_list cs k \<le> count_list cs c"
      "most_common (foldl bump [] cs) 0 ''#666666'' = c"
      by blast
    from c(1) have "c \<in> set cs" by simp
    with s have l: "length c = 7" by (rule sampled_hex)
    from g c(5) have d: "getDominantColor data = Some c" by simp
    from c(1-3) have "\<exists>pre post. cs = pre @ c # post \<and> c \<notin> set pre \<and>
                  (\<forall>k \<in> set pre. count_list cs k < count_list cs c)" by blast
    with d l c(4) False show ?thesis by blast
  qed
qed

theorem dominant_color_most_frequent_witness:
  "length [255, 0, 0, 255,  0, 0, 255, 255,  0, 0, 255, 9,  255, 0, 0, 255 :: 8 word] mod 4 = 0 \<and>
   sampled [255, 0, 0, 255,  0, 0, 255, 255,  0, 0, 255, 9,  255, 0, 0, 255] =
     Some [''#ff0000'', ''#0000ff'', ''#0000ff'', ''#ff0000''] \<and>
   getDominantColor [255, 0, 0, 255,  0, 0, 255, 255,  0, 0, 255, 9,  255, 0, 0, 255] = Some ''#ff0000'' \<and>
   sampled [] = Some [] \<and> getDominantColor [] = Some ''#666666''"
proof -
  let ?d = "[255, 0, 0, 255,  0, 0, 255, 255,  0, 0, 255, 9,  255, 0, 0, 255 :: 8 word]"
  let ?cs = "[''#ff0000'', ''#0000ff'', ''#0000ff'', ''#ff0000'']"
  have h: "component_hex 255 = ''ff''" "component_hex 0 = ''00''"
    by (simp_all add: component_hex_digits hex_digit_def)
  have s: "sampled ?d = Some ?cs" by (simp add: rgb_hex_def h)
  have e: "sampled [] = Some []" by simp
  from dominant_color_most_frequent [of "[]" "[]"] e
  have 0: "getDominantColor [] = Some ''#666666''" by auto
  note t = dominant_color_most_frequent [of ?d ?cs, THEN conjunct2, THEN conjunct1, THEN mp, OF s]
  then obtain c where c1: "getDominantColor ?d = Some c" and
    r: "?cs \<noteq> [] \<longrightarrow> length c = 7 \<and> (\<forall>k. count_list ?cs k \<le> count_list ?cs c) \<and>
              (\<exists>pre post. ?cs = pre @ c # post \<and> c \<notin> set pre \<and>
                  (\<forall>k \<in> set pre. count_list ?cs k < count_list ?cs c))"
    by blast
  have "?cs \<noteq> []" by simp
  with r obtain pre post where c: "getDominantColor ?d = Some c" "?cs = pre @ c # post" "c \<notin> set pre"
    "\<forall>k \<in> set pre. count_list ?cs k < count_list ?cs c" "\<forall>k. count_list ?cs k \<le> count_list ?cs c"
    using c1 by blast
  have "c = ''#ff0000''"
  proof (cases pre)
    case Nil
    with c(2) show ?thesis by simp
  next
    case (Cons p ps)
    with c(2) have p: "p = ''#ff0000''" by simp
    with Cons have "''#ff0000'' \<in> set pre" by simp
    with c(4) have lt: "count_list ?cs ''#ff0000'' < count_list ?cs c" by blast
    have "c \<in> set (pre @ c # post)" by simp
    then have "c \<in> set ?cs" by (simp only: c(2) [symmetric])
    then have "c = ''#ff0000'' \<or> c = ''#0000ff''" by auto
    then have "count_list ?cs c = 2" by auto
    moreover have "count_list ?cs ''#ff0000'' = 2" by simp
    ultimately show ?thesis using lt by linarith
  qed
  with c(1) s e 0 show ?thesis by simp
qed

section \<open>The colour classifier (hexToHsl, getClosestColorId)\<close>

















section \<open>Corner radius of the exported icons (getBorderRadiusRatio, addRoundedRectPath)\<close>

text \<open>
  What the code reads of an image element: two properties of its computed style, the
  width and height of its bounding rectangle, and its natural size in pixels.
\<close>

record Element =
  borderTopLeftRadius :: string
  borderRadius :: string
  rect_width :: rat
  rect_height :: rat
  naturalWidth :: nat
  naturalHeight :: nat

text \<open>
  The value of \<open>parseFloat\<close>: a finite number, \<open>NaN\<close>, or an infinity (\<open>True\<close> for the
  positive one). \<open>parseFloat\<close> itself is a parameter of the model, as \<open>trim\<close> is.
\<close>

datatype parsed = Parsed rat | NotANumber | ParsedInfinity bool

text \<open>
  \<^verbatim>\<open>const br = style.borderTopLeftRadius || style.borderRadius || '0';
  const first = br.split('/')[0].trim().split(' ')[0];\<close>
\<close>

definition first_radius :: "(string \<Rightarrow> string) \<Rightarrow> Element \<Rightarrow> string" where
  "first_radius trim el =
     (let br = (if borderTopLeftRadius el \<noteq> [] then borderTopLeftRadius el
                else if borderRadius el \<noteq> [] then borderRadius el else ''0'')
      in takeWhile (\<lambda>c. c \<noteq> CHR '' '') (trim (takeWhile (\<lambda>c. c \<noteq> CHR ''/'') br)))"

text \<open>
  \<^verbatim>\<open>const base = Math.min(rect.width || 0, rect.height || 0) || 1;\<close>
\<close>

definition radius_base :: "Element \<Rightarrow> rat" where
  "radius_base el = (let m = min (rect_width el) (rect_height el) in if m = 0 then 1 else m)"

text \<open>
  \<^verbatim>\<open>Math.max(0, Math.min(1, (parseFloat(first) || 0) / d))\<close> for a divisor \<open>d\<close> other than 0:
  \<open>NaN\<close> and 0 become 0 before the division; an infinity divided by \<open>d\<close> is the infinity of
  the product of the signs.
\<close>

definition clamped_ratio :: "parsed \<Rightarrow> rat \<Rightarrow> rat" where
  "clamped_ratio p d =
     (case p of
        NotANumber \<Rightarrow> max 0 (min 1 (0 / d))
      | Parsed q \<Rightarrow> max 0 (min 1 (q / d))
      | ParsedInfinity positive \<Rightarrow> if positive = (0 < d) then max 0 (min 1 1) else max 0 0)"

definition getBorderRadiusRatio :: "(string \<Rightarrow> parsed) \<Rightarrow> (string \<Rightarrow> string) \<Rightarrow> Element \<Rightarrow> rat" where
  "getBorderRadiusRatio parseFloat trim el =
     (let first = first_radius trim el; base = radius_base el
      in if first \<noteq> [] \<and> last first = CHR ''%''
         then clamped_ratio (parseFloat first) 100
         else clamped_ratio (parseFloat first) base)"

text \<open>
  \<open>addRoundedRectPath\<close>: the calls it makes on the drawing context, with
  \<^verbatim>\<open>const r = Math.max(0, Math.min(radius, Math.min(width, height) / 2));\<close>
\<close>

datatype path_call = BeginPath | MoveTo rat rat | ArcTo rat rat rat rat rat | ClosePath

definition effective_radius :: "rat \<Rightarrow> rat \<Rightarrow> rat \<Rightarrow> rat" where
  "effective_radius width height radius = max 0 (min radius (min width height / 2))"

definition addRoundedRectPath :: "rat \<Rightarrow> rat \<Rightarrow> rat \<Rightarrow> rat \<Rightarrow> rat \<Rightarrow> path_call list" where
  "addRoundedRectPath x y width height radius =
     (let r = effective_radius width height radius
      in [BeginPath,
          MoveTo (x + r) y,
          ArcTo (x + width) y (x + width) (y + height) r,
          ArcTo (x + width) (y + height) x (y + height) r,
          ArcTo x (y + height) x y r,
          ArcTo x y (x + width) y r,
          ClosePath])"

text \<open>
  The clip path of \<open>copySingleImageWithRadius\<close>:
  \<^verbatim>\<open>canvas.width = imgEl.naturalWidth; canvas.height = imgEl.naturalHeight;
  const ratio = getBorderRadiusRatio(imgEl);
  const radius = ratio * Math.min(canvas.width, canvas.height);
  addRoundedRectPath(ctx, 0, 0, canvas.width, canvas.height, radius);\<close>
\<close>

definition single_clip_path ::
  "(string \<Rightarrow> parsed) \<Rightarrow> (string \<Rightarrow> string) \<Rightarrow> Element \<Rightarrow> path_call list" where
  "single_clip_path parseFloat trim imgEl =
     (let w = rat_of_nat (naturalWidth imgEl); h = rat_of_nat (naturalHeight imgEl);
          ratio = getBorderRadiusRatio parseFloat trim imgEl;
          radius = ratio * min w h
      in addRoundedRectPath 0 0 w h radius)"

text \<open>
  The size an image is drawn at in a cell of the combined sheet; \<open>Math.round\<close> rounds
  halves up. A natural height of 0 makes \<open>aspect\<close> infinite (or \<open>NaN\<close> when the width is 0
  too, and then neither comparison holds).
  \<^verbatim>\<open>const aspect = img.naturalWidth / img.naturalHeight;
  let drawW = cell; let drawH = cell;
  if (aspect > 1) drawH = Math.round(cell / aspect);
  else if (aspect < 1) drawW = Math.round(cell * aspect);\<close>
\<close>

definition math_round :: "rat \<Rightarrow> int" where
  "math_round q = \<lfloor>q + 1 / 2\<rfloor>"

definition draw_size :: "nat \<Rightarrow> Element \<Rightarrow> rat \<times> rat" where
  "draw_size cell img =
     (if naturalHeight img = 0
      then (if naturalWidth img = 0 then (rat_of_nat cell, rat_of_nat cell) else (rat_of_nat cell, 0))
      else (let aspect = rat_of_nat (naturalWidth img) / rat_of_nat (naturalHeight img)
            in if aspect > 1 then (rat_of_nat cell, rat_of_int (math_round (rat_of_nat cell / aspect)))
               else if aspect < 1 then (rat_of_int (math_round (rat_of_nat cell * aspect)), rat_of_nat cell)
               else (rat_of_nat cell, rat_of_nat cell)))"

text \<open>
  The clip path of one image of \<open>generateCombinedCanvas\<close>, drawn at \<open>(dx, dy)\<close>:
  \<^verbatim>\<open>const radius = ratio * Math.min(drawW, drawH);
  addRoundedRectPath(ctx, dx, dy, drawW, drawH, radius);\<close>
\<close>

definition combined_clip_path ::
  "(string \<Rightarrow> parsed) \<Rightarrow> (string \<Rightarrow> string) \<Rightarrow> nat \<Rightarrow> rat \<Rightarrow> rat \<Rightarrow> Element \<Rightarrow> path_call list" where
  "combined_clip_path parseFloat trim cell dx dy img =
     (let drawW = fst (draw_size cell img); drawH = snd (draw_size cell img);
          ratio = getBorderRadiusRatio parseFloat trim img;
          radius = ratio * min drawW drawH
      in addRoundedRectPath dx dy drawW drawH radius)"

text \<open>The radii that a path passes to \<open>arcTo\<close>.\<close>

fun arc_radii :: "path_call list \<Rightarrow> rat list" where
  "arc_radii [] = []"
| "arc_radii (ArcTo x1 y1 x2 y2 r # calls) = r # arc_radii calls"
| "arc_radii (_ # calls) = arc_radii calls"

lemma clamped_ratio_range: "0 \<le> clamped_ratio p d \<and> clamped_ratio p d \<le> 1"
  by (cases p) (simp_all add: clamped_ratio_def)

lemma clamped_ratio_NaN: "clamped_ratio NotANumber d = 0"
  by (simp add: clamped_ratio_def)

lemma getBorderRadiusRatio_range:
  "0 \<le> getBorderRadiusRatio pf trim el \<and> getBorderRadiusRatio pf trim el \<le> 1"
  by (simp add: getBorderRadiusRatio_def Let_def clamped_ratio_range)

lemma effective_radius_range:
  "0 \<le> effective_radius w h radius \<and>
   (0 \<le> w \<and> 0 \<le> h \<longrightarrow> effective_radius w h radius \<le> min w h / 2)"
  by (auto simp: effective_radius_def)

lemma arc_radii_path:
  "arc_radii (addRoundedRectPath x y w h radius) =
     [effective_radius w h radius, effective_radius w h radius,
      effective_radius w h radius, effective_radius w h radius]"
  by (simp add: addRoundedRectPath_def Let_def)

lemma math_round_nonneg: "0 \<le> q \<Longrightarrow> 0 \<le> math_round q"
  by (simp add: math_round_def)

lemma draw_size_nonneg: "0 \<le> fst (draw_size cell img) \<and> 0 \<le> snd (draw_size cell img)"
  by (simp add: draw_size_def Let_def math_round_nonneg)

text \<open>
  Claim C10. \<open>getBorderRadiusRatio\<close> lies in [0, 1] for every style, size, \<open>parseFloat\<close> and
  \<open>trim\<close>, and is 0 when \<open>parseFloat\<close> gives \<open>NaN\<close>. For every width, height and requested
  radius, the radius that \<open>addRoundedRectPath\<close> passes to its four arcs is the requested one
  clamped, \<open>max 0 (min radius (min width height / 2))\<close>: never negative, and at most half of
  the shorter edge of a rectangle (width and height not negative). So the clip radius of
  the single export and of each image of the combined export, whose sizes are never
  negative, lies between 0 and half of the shorter edge.
\<close>

theorem corner_radius_clamped:
  "0 \<le> getBorderRadiusRatio pf trim el \<and> getBorderRadiusRatio pf trim el \<le> 1 \<and>
   (pf (first_radius trim el) = NotANumber \<longrightarrow> getBorderRadiusRatio pf trim el = 0) \<and>
   arc_radii (addRoundedRectPath x y w h radius) =
     [effective_radius w h radius, effective_radius w h radius,
      effective_radius w h radius, effective_radius w h radius] \<and>
   effective_radius w h radius = max 0 (min radius (min w h / 2)) \<and>
   0 \<le> effective_radius w h radius \<and>
   (0 \<le> w \<and> 0 \<le> h \<longrightarrow> effective_radius w h radius \<le> min w h / 2) \<and>
   (\<forall>r \<in> set (arc_radii (single_clip_path pf trim el)).
      0 \<le> r \<and> r \<le> min (rat_of_nat (naturalWidth el)) (rat_of_nat (naturalHeight el)) / 2) \<and>
   (\<forall>r \<in> set (arc_radii (combined_clip_path pf trim cell dx dy el)).
      0 \<le> r \<and> r \<le> min (fst (draw_size cell el)) (snd (draw_size cell el)) / 2)"
proof (intro conjI impI ballI)
  show "0 \<le> getBorderRadiusRatio pf trim el" "getBorderRadiusRatio pf trim el \<le> 1"
    using getBorderRadiusRatio_range [of pf trim el] by simp_all
  show "arc_radii (addRoundedRectPath x y w h radius) =
     [effective_radius w h radius, effective_radius w h radius,
      effective_radius w h radius, effective_radius w h radius]"
    by (rule arc_radii_path)
  show "0 \<le> effective_radius w h radius"
    using effective_radius_range [of w h radius] by simp
  show "effective_radius w h radius = max 0 (min radius (min w h / 2))"
    by (simp add: effective_radius_def)
next
  assume "pf (first_radius trim el) = NotANumber"
  then show "getBorderRadiusRatio pf trim el = 0"
    by (simp add: getBorderRadiusRatio_def Let_def clamped_ratio_NaN)
next
  assume "0 \<le> w \<and> 0 \<le> h"
  then show "effective_radius w h radius \<le> min w h / 2"
    using effective_radius_range [of w h radius] by simp
next
  fix r assume "r \<in> set (arc_radii (single_clip_path pf trim el))"
  then have r: "r = effective_radius (rat_of_nat (naturalWidth el)) (rat_of_nat (naturalHeight el))
                    (getBorderRadiusRatio pf trim el * min (rat_of_nat (naturalWidth el)) (rat_of_nat (naturalHeight el)))"
    by (simp add: single_clip_path_def Let_def arc_radii_path)
  show "0 \<le> r" unfolding r using effective_radius_range by blast
  have "0 \<le> rat_of_nat (naturalWidth el) \<and> 0 \<le> rat_of_nat (naturalHeight el)" by simp
  then show "r \<le> min (rat_of_nat (naturalWidth el)) (rat_of_nat (naturalHeight el)) / 2"
    unfolding r using effective_radius_range by blast
next
  fix r assume "r \<in> set (arc_radii (combined_clip_path pf trim cell dx dy el))"
  then have r: "r = effective_radius (fst (draw_size cell el)) (snd (draw_size cell el))
                    (getBorderRadiusRatio pf trim el * min (fst (draw_size cell el)) (snd (draw_size cell el)))"
    by (simp add: combined_clip_path_def Let_def arc_radii_path)
  show "0 \<le> r" unfolding r using effective_radius_range by blast
  show "r \<le> min (fst (draw_size cell el)) (snd (draw_size cell el)) / 2"
    unfolding r using effective_radius_range draw_size_nonneg by blast
qed

theorem corner_radius_clamped_witness:
  "(\<lambda>s. if s = ''22%'' then Parsed 22 else NotANumber) (first_radius (\<lambda>str. str)
      \<lparr>borderTopLeftRadius = ''auto'', borderRadius = ''22%'', rect_width = 64, rect_height = 64,
       naturalWidth = 100, naturalHeight = 100\<rparr>) = NotANumber \<and>
   getBorderRadiusRatio (\<lambda>s. if s = ''22%'' then Parsed 22 else NotANumber) (\<lambda>str. str)
      \<lparr>borderTopLeftRadius = ''auto'', borderRadius = ''22%'', rect_width = 64, rect_height = 64,
       naturalWidth = 100, naturalHeight = 100\<rparr> = 0 \<and>
   (0 \<le> (100 :: rat) \<and> 0 \<le> (60 :: rat)) \<and> effective_radius 100 60 45 = 30 \<and>
   effective_radius 100 60 45 \<le> min 100 60 / 2 \<and>
   getBorderRadiusRatio (\<lambda>s. if s = ''22%'' then Parsed 22 else NotANumber) (\<lambda>str. str)
      \<lparr>borderTopLeftRadius = ''22% 10%'', borderRadius = [], rect_width = 64, rect_height = 64,
       naturalWidth = 100, naturalHeight = 100\<rparr> = 11 / 50 \<and>
   arc_radii (single_clip_path (\<lambda>s. if s = ''22%'' then Parsed 22 else NotANumber) (\<lambda>str. str)
      \<lparr>borderTopLeftRadius = ''22% 10%'', borderRadius = [], rect_width = 64, rect_height = 64,
       naturalWidth = 100, naturalHeight = 100\<rparr>) = [22, 22, 22, 22] \<and>
   draw_size 160
      \<lparr>borderTopLeftRadius = ''22% 10%'', borderRadius = [], rect_width = 64, rect_height = 64,
       naturalWidth = 100, naturalHeight = 100\<rparr> = (160, 160) \<and>
   arc_radii (combined_clip_path (\<lambda>s. if s = ''22%'' then Parsed 22 else NotANumber) (\<lambda>str. str) 160 10 10
      \<lparr>borderTopLeftRadius = ''22% 10%'', borderRadius = [], rect_width = 64, rect_height = 64,
       naturalWidth = 100, naturalHeight = 100\<rparr>) = [176 / 5, 176 / 5, 176 / 5, 176 / 5]"
proof -
  let ?pf = "\<lambda>s. if s = ''22%'' then Parsed 22 else NotANumber"
  let ?a = "\<lparr>borderTopLeftRadius = ''auto'', borderRadius = ''22%'', rect_width = 64, rect_height = 64,
       naturalWidth = 100, naturalHeight = 100\<rparr>"
  let ?b = "\<lparr>borderTopLeftRadius = ''22% 10%'', borderRadius = [], rect_width = 64, rect_height = 64,
       naturalWidth = 100, naturalHeight = 100\<rparr>"
  let ?t = "\<lambda>str :: string. str"
  have fa: "first_radius ?t ?a = ''auto''" by (simp add: first_radius_def)
  have fb: "first_radius ?t ?b = ''22%''" by (simp add: first_radius_def)
  from corner_radius_clamped [of ?pf ?t ?a 0 0 100 60 45] fa
  have 1: "getBorderRadiusRatio ?pf ?t ?a = 0" "effective_radius 100 60 45 \<le> min 100 60 / 2" by simp_all
  have 2: "effective_radius 100 60 45 = 30" by (simp add: effective_radius_def)
  have 3: "getBorderRadiusRatio ?pf ?t ?b = 11 / 50"
    by (simp add: getBorderRadiusRatio_def fb clamped_ratio_def)
  have 4: "arc_radii (single_clip_path ?pf ?t ?b) = [22, 22, 22, 22]"
    by (simp add: single_clip_path_def 3 arc_radii_path effective_radius_def)
  have 5: "draw_size 160 ?b = (160, 160)" by (simp add: draw_size_def)
  have 6: "arc_radii (combined_clip_path ?pf ?t 160 10 10 ?b) = [176 / 5, 176 / 5, 176 / 5, 176 / 5]"
    by (simp add: combined_clip_path_def 5 3 arc_radii_path effective_radius_def)
  from fa 1 2 3 4 5 6 show ?thesis by simp
qed

section \<open>The catalog loader (AppService.loadAppsFromSheet)\<close>

text \<open>
  The parsed payload. A cell is \<open>null\<close> (\<open>None\<close>) or an object with a value \<open>v\<close>; a row is
  \<open>null\<close> or the list \<open>c\<close> of its cells; a column is \<open>null\<close> or an object whose \<open>label\<close> is a
  string or \<open>null\<close>; \<open>table\<close>, \<open>cols\<close> and \<open>rows\<close> may be absent.
\<close>

type_synonym GvizCell = "jsval option"

type_synonym GvizRow = "GvizCell list"

type_synonym GvizColumn = "string option"

record GvizTable =
  table_cols :: "GvizColumn option list option"
  table_rows :: "GvizRow option list option"

record GvizResponse =
  table :: "GvizTable option"

text \<open>
  \<^verbatim>\<open>const cols = (payload?.table?.cols ?? []).filter(Boolean)
  const rows = (payload?.table?.rows ?? []).filter(Boolean)\<close>
\<close>

definition present :: "'a option list \<Rightarrow> 'a list" where
  "present xs = concat (map (\<lambda>x. case x of None \<Rightarrow> [] | Some y \<Rightarrow> [y]) xs)"

definition payload_cols :: "GvizResponse \<Rightarrow> GvizColumn list" where
  "payload_cols payload =
     present (case table payload of None \<Rightarrow> []
              | Some t \<Rightarrow> (case table_cols t of None \<Rightarrow> [] | Some cs \<Rightarrow> cs))"

definition payload_rows :: "GvizResponse \<Rightarrow> GvizRow list" where
  "payload_rows payload =
     present (case table payload of None \<Rightarrow> []
              | Some t \<Rightarrow> (case table_rows t of None \<Rightarrow> [] | Some rs \<Rightarrow> rs))"

text \<open>
  \<^verbatim>\<open>cols.forEach((col, idx) => {
    if (typeof col.label === 'string') labelToIndex[col.label.trim().toLowerCase()] = idx })\<close>
  A later column with the same label overwrites an earlier one.
\<close>

fun label_entries ::
  "(string \<Rightarrow> string) \<Rightarrow> (string \<Rightarrow> string) \<Rightarrow> nat \<Rightarrow> GvizColumn list \<Rightarrow> (string \<rightharpoonup> nat) \<Rightarrow> (string \<rightharpoonup> nat)" where
  "label_entries toLowerCase trim idx [] m = m"
| "label_entries toLowerCase trim idx (None # cs) m = label_entries toLowerCase trim (idx + 1) cs m"
| "label_entries toLowerCase trim idx (Some label # cs) m =
     label_entries toLowerCase trim (idx + 1) cs (m(toLowerCase (trim label) \<mapsto> idx))"

definition labelToIndex ::
  "(string \<Rightarrow> string) \<Rightarrow> (string \<Rightarrow> string) \<Rightarrow> GvizColumn list \<Rightarrow> (string \<rightharpoonup> nat)" where
  "labelToIndex toLowerCase trim cs = label_entries toLowerCase trim 0 cs Map.empty"

text \<open>
  \<^verbatim>\<open>const idx = labelToIndex[label]; if (idx == null) return null
  const cell = row.c[idx]; return cell && cell.v != null ? cell.v : null\<close>
  An index past the end of the row reads \<open>undefined\<close>.
\<close>

definition getVal :: "(string \<rightharpoonup> nat) \<Rightarrow> GvizRow \<Rightarrow> string \<Rightarrow> jsval" where
  "getVal l2i cells label =
     (case l2i label of
        None \<Rightarrow> JNull
      | Some idx \<Rightarrow> if idx < length cells
                    then (case cells ! idx of None \<Rightarrow> JNull | Some v \<Rightarrow> v)
                    else JNull)"

text \<open>
  Truthiness, \<open>String(_)\<close> and \<open>parseInt(_, 10)\<close>. \<open>parseInt\<close> skips the leading white space
  that \<open>trim\<close> strips, reads a sign and the decimal digits that follow, and ignores the
  rest; what \<open>trim\<close> strips at the end lies in the part it ignores.
\<close>

fun truthy :: "jsval \<Rightarrow> bool" where
  "truthy JNull = False"
| "truthy (JBool b) = b"
| "truthy (JNum (Num i)) = (i \<noteq> 0)"
| "truthy (JNum NaN) = False"
| "truthy (JNum _) = True"
| "truthy (JStr str) = (str \<noteq> [])"

fun js_String :: "jsval \<Rightarrow> string" where
  "js_String JNull = ''null''"
| "js_String (JBool b) = (if b then ''true'' else ''false'')"
| "js_String (JNum (Num i)) = int_toString i"
| "js_String (JNum NaN) = ''NaN''"
| "js_String (JNum PosInfinity) = ''Infinity''"
| "js_String (JNum NegInfinity) = ''-Infinity''"
| "js_String (JStr str) = str"

definition digit_value :: "char \<Rightarrow> nat option" where
  "digit_value = map_of (zip ''0123456789'' [0, 1, 2, 3, 4, 5, 6, 7, 8, 9])"

fun leading_digits :: "string \<Rightarrow> nat list" where
  "leading_digits [] = []"
| "leading_digits (ch # str) =
     (case digit_value ch of None \<Rightarrow> [] | Some d \<Rightarrow> d # leading_digits str)"

definition parseInt10 :: "(string \<Rightarrow> string) \<Rightarrow> string \<Rightarrow> number" where
  "parseInt10 trim str =
     (let t = trim str;
          negative = (t \<noteq> [] \<and> hd t = CHR ''-'');
          u = (if t \<noteq> [] \<and> (hd t = CHR ''-'' \<or> hd t = CHR ''+'') then tl t else t);
          ds = leading_digits u
      in if ds = [] then NaN
         else Num ((if negative then - 1 else 1) * int (foldl (\<lambda>acc d. 10 * acc + d) 0 ds)))"

fun isFinite :: "number \<Rightarrow> bool" where
  "isFinite (Num i) = True"
| "isFinite _ = False"

text \<open>
  The \<open>map\<close> callback: one record from one row.
  \<^verbatim>\<open>const id = typeof idRaw === 'number' ? idRaw : parseInt(String(idRaw || '0'), 10)
  const app_store_id = appStoreIdRaw != null ? String(appStoreIdRaw) : ''\<close>
\<close>

definition or_undefined :: "jsval \<Rightarrow> jsval option" where
  "or_undefined v = (case v of JNull \<Rightarrow> None | _ \<Rightarrow> Some v)"

definition stamp :: "jsval option \<Rightarrow> string option" where
  "stamp v = (case v of None \<Rightarrow> None | Some w \<Rightarrow> if truthy w then Some (js_String w) else None)"

definition app_of_row :: "(string \<Rightarrow> string) \<Rightarrow> (string \<rightharpoonup> nat) \<Rightarrow> GvizRow \<Rightarrow> AppData" where
  "app_of_row trim l2i cells =
     (let idRaw = getVal l2i cells ''id'';
          nm = (case getVal l2i cells ''name'' of JNull \<Rightarrow> JStr [] | v \<Rightarrow> v);
          appStoreIdRaw = getVal l2i cells ''app_store_id'';
          cat = or_undefined (getVal l2i cells ''category'');
          createdAt = or_undefined (getVal l2i cells ''created_at'');
          updatedAt = or_undefined (getVal l2i cells ''updated_at'')
      in \<lparr>app_id = (case idRaw of JNum n \<Rightarrow> n
                     | _ \<Rightarrow> parseInt10 trim (js_String (if truthy idRaw then idRaw else JStr ''0''))),
          name = nm,
          app_store_id = (case appStoreIdRaw of JNull \<Rightarrow> [] | v \<Rightarrow> js_String v),
          category = cat,
          created_at = stamp createdAt,
          updated_at = stamp updatedAt\<rparr>)"

text \<open>
  \<^verbatim>\<open>.filter(a => Number.isFinite(a.id) && a.name && a.app_store_id)\<close>
\<close>

definition valid_app :: "AppData \<Rightarrow> bool" where
  "valid_app a = (isFinite (app_id a) \<and> truthy (name a) \<and> app_store_id a \<noteq> [])"

definition loadAppsFromSheet ::
  "(string \<Rightarrow> string) \<Rightarrow> (string \<Rightarrow> string) \<Rightarrow> GvizResponse \<Rightarrow> AppData list" where
  "loadAppsFromSheet toLowerCase trim payload =
     filter valid_app
       (map (app_of_row trim (labelToIndex toLowerCase trim (payload_cols payload)))
            (payload_rows payload))"

lemmas loader_eval =
  loadAppsFromSheet_def payload_cols_def payload_rows_def present_def labelToIndex_def
  getVal_def app_of_row_def
  or_undefined_def stamp_def valid_app_def parseInt10_def digit_value_def int_toString_def
  digit_char_def

text \<open>
  Claim C1, as stated, on a sheet with the columns \<open>id\<close>, \<open>name\<close>, \<open>app_store_id\<close> and two
  rows, one with the id 0 and one with an empty id cell: both records are in the loaded
  catalog, with the id 0, which is not positive.
\<close>

theorem loadAppsFromSheet_keeps_id_zero:
  "loadAppsFromSheet (\<lambda>str. str) (\<lambda>str. str)
     \<lparr>table = Some \<lparr>table_cols = Some [Some (Some ''id''), Some (Some ''name''), Some (Some ''app_store_id'')],
                     table_rows = Some [Some [Some (JNum (Num 0)), Some (JStr ''Maps''), Some (JStr ''915056765'')],
                                        Some [None, Some (JStr ''Mail''), Some (JNum (Num 1108187098))]]\<rparr>\<rparr> =
     [\<lparr>app_id = Num 0, name = JStr ''Maps'', app_store_id = ''915056765'', category = None,
       created_at = None, updated_at = None\<rparr>,
      \<lparr>app_id = Num 0, name = JStr ''Mail'', app_store_id = ''1108187098'', category = None,
       created_at = None, updated_at = None\<rparr>] \<and>
   \<not> (0 :: int) < 0"
  by (simp add: loader_eval)

text \<open>
  Claim C1, amended. The loaded catalog is the list of the rows' records, in row order,
  without those that fail the filter: the record of a row is in the catalog if and only if
  its id is finite, its name is truthy (a string name: not empty) and its \<open>app_store_id\<close> is
  not empty. Nothing asks the id to be positive.
\<close>

theorem loadAppsFromSheet_valid_rows:
  "loadAppsFromSheet toLowerCase trim payload =
     filter (\<lambda>a. isFinite (app_id a) \<and> truthy (name a) \<and> app_store_id a \<noteq> [])
       (map (app_of_row trim (labelToIndex toLowerCase trim (payload_cols payload))) (payload_rows payload)) \<and>
   (\<forall>r \<in> set (payload_rows payload).
      app_of_row trim (labelToIndex toLowerCase trim (payload_cols payload)) r \<in> set (loadAppsFromSheet toLowerCase trim payload) \<longleftrightarrow>
        isFinite (app_id (app_of_row trim (labelToIndex toLowerCase trim (payload_cols payload)) r)) \<and>
        truthy (name (app_of_row trim (labelToIndex toLowerCase trim (payload_cols payload)) r)) \<and>
        app_store_id (app_of_row trim (labelToIndex toLowerCase trim (payload_cols payload)) r) \<noteq> []) \<and>
   (\<forall>a \<in> set (loadAppsFromSheet toLowerCase trim payload).
      (\<exists>i. app_id a = Num i) \<and> name a \<noteq> JStr [] \<and> name a \<noteq> JNull \<and> app_store_id a \<noteq> []) \<and>
   (truthy (JStr str) \<longleftrightarrow> str \<noteq> [])"
proof (intro conjI)
  show "loadAppsFromSheet toLowerCase trim payload =
     filter (\<lambda>a. isFinite (app_id a) \<and> truthy (name a) \<and> app_store_id a \<noteq> [])
       (map (app_of_row trim (labelToIndex toLowerCase trim (payload_cols payload))) (payload_rows payload))"
    by (simp add: loadAppsFromSheet_def valid_app_def [abs_def])
  show "truthy (JStr str) \<longleftrightarrow> str \<noteq> []" by simp
  show "\<forall>r \<in> set (payload_rows payload).
      app_of_row trim (labelToIndex toLowerCase trim (payload_cols payload)) r \<in> set (loadAppsFromSheet toLowerCase trim payload) \<longleftrightarrow>
        isFinite (app_id (app_of_row trim (labelToIndex toLowerCase trim (payload_cols payload)) r)) \<and>
        truthy (name (app_of_row trim (labelToIndex toLowerCase trim (payload_cols payload)) r)) \<and>
        app_store_id (app_of_row trim (labelToIndex toLowerCase trim (payload_cols payload)) r) \<noteq> []"
    by (auto simp: loadAppsFromSheet_def valid_app_def)
  show "\<forall>a \<in> set (loadAppsFromSheet toLowerCase trim payload).
      (\<exists>i. app_id a = Num i) \<and> name a \<noteq> JStr [] \<and> name a \<noteq> JNull \<and> app_store_id a \<noteq> []"
  proof
    fix a assume "a \<in> set (loadAppsFromSheet toLowerCase trim payload)"
    then have v: "isFinite (app_id a)" "truthy (name a)" "app_store_id a \<noteq> []"
      by (simp_all add: loadAppsFromSheet_def valid_app_def)
    from v(1) have "\<exists>i. app_id a = Num i" by (cases "app_id a") simp_all
    moreover from v(2) have "name a \<noteq> JStr [] \<and> name a \<noteq> JNull" by auto
    ultimately show "(\<exists>i. app_id a = Num i) \<and> name a \<noteq> JStr [] \<and> name a \<noteq> JNull \<and> app_store_id a \<noteq> []"
      using v(3) by simp
  qed
qed

theorem loadAppsFromSheet_valid_rows_witness:
  "[Some (JStr ''-3''), Some (JStr ''Notes'')] \<in> set (payload_rows
     \<lparr>table = Some \<lparr>table_cols = Some [Some (Some ''ID ''), None, Some (Some ''Name''), Some (Some ''App_Store_Id'')],
                     table_rows = Some [Some [Some (JStr ''-3''), Some (JStr ''Notes'')], None,
                                        Some [Some (JNum (Num 7)), Some (JStr ''Notes''), Some (JNum (Num 1110145109))]]\<rparr>\<rparr>) \<and>
   app_of_row (\<lambda>str. if str = ''ID '' then ''ID'' else str)
     (labelToIndex
        (\<lambda>str. if str = ''ID'' then ''id'' else if str = ''Name'' then ''name''
                else if str = ''App_Store_Id'' then ''app_store_id'' else str)
        (\<lambda>str. if str = ''ID '' then ''ID'' else str)
        [Some ''ID '', Some ''Name'', Some ''App_Store_Id''])
     [Some (JStr ''-3''), Some (JStr ''Notes'')] =
     \<lparr>app_id = Num (- 3), name = JStr ''Notes'', app_store_id = [], category = None,
      created_at = None, updated_at = None\<rparr> \<and>
   \<lparr>app_id = Num (- 3), name = JStr ''Notes'', app_store_id = [], category = None,
      created_at = None, updated_at = None\<rparr> \<notin> set (loadAppsFromSheet
     (\<lambda>str. if str = ''ID'' then ''id'' else if str = ''Name'' then ''name''
             else if str = ''App_Store_Id'' then ''app_store_id'' else str)
     (\<lambda>str. if str = ''ID '' then ''ID'' else str)
     \<lparr>table = Some \<lparr>table_cols = Some [Some (Some ''ID ''), None, Some (Some ''Name''), Some (Some ''App_Store_Id'')],
                     table_rows = Some [Some [Some (JStr ''-3''), Some (JStr ''Notes'')], None,
                                        Some [Some (JNum (Num 7)), Some (JStr ''Notes''), Some (JNum (Num 1110145109))]]\<rparr>\<rparr>) \<and>
   loadAppsFromSheet
     (\<lambda>str. if str = ''ID'' then ''id'' else if str = ''Name'' then ''name''
             else if str = ''App_Store_Id'' then ''app_store_id'' else str)
     (\<lambda>str. if str = ''ID '' then ''ID'' else str)
     \<lparr>table = Some \<lparr>table_cols = Some [Some (Some ''ID ''), None, Some (Some ''Name''), Some (Some ''App_Store_Id'')],
                     table_rows = Some [Some [Some (JStr ''-3''), Some (JStr ''Notes'')], None,
                                        Some [Some (JNum (Num 7)), Some (JStr ''Notes''), Some (JNum (Num 1110145109))]]\<rparr>\<rparr> =
     [\<lparr>app_id = Num 7, name = JStr ''Notes'', app_store_id = ''1110145109'', category = None,
       created_at = None, updated_at = None\<rparr>]"
proof -
  let ?p = "\<lparr>table = Some \<lparr>table_cols = Some [Some (Some ''ID ''), None, Some (Some ''Name''), Some (Some ''App_Store_Id'')],
                     table_rows = Some [Some [Some (JStr ''-3''), Some (JStr ''Notes'')], None,
                                        Some [Some (JNum (Num 7)), Some (JStr ''Notes''), Some (JNum (Num 1110145109))]]\<rparr>\<rparr>"
  let ?r = "[Some (JStr ''-3''), Some (JStr ''Notes'')]"
  let ?lo = "\<lambda>str. if str = ''ID'' then ''id'' else if str = ''Name'' then ''name''
                   else if str = ''App_Store_Id'' then ''app_store_id'' else str"
  let ?tr = "\<lambda>str. if str = ''ID '' then ''ID'' else str"
  have c: "payload_cols ?p = [Some ''ID '', Some ''Name'', Some ''App_Store_Id'']"
    by (simp add: payload_cols_def present_def)
  have r: "?r \<in> set (payload_rows ?p)" by (simp add: payload_rows_def present_def)
  have a: "app_of_row ?tr (labelToIndex ?lo ?tr [Some ''ID '', Some ''Name'', Some ''App_Store_Id'']) ?r =
     \<lparr>app_id = Num (- 3), name = JStr ''Notes'', app_store_id = [], category = None,
      created_at = None, updated_at = None\<rparr>"
    by (simp add: loader_eval)
  from loadAppsFromSheet_valid_rows [of ?lo ?tr ?p] r
  have "app_of_row ?tr (labelToIndex ?lo ?tr (payload_cols ?p)) ?r \<in> set (loadAppsFromSheet ?lo ?tr ?p) \<longleftrightarrow>
        isFinite (app_id (app_of_row ?tr (labelToIndex ?lo ?tr (payload_cols ?p)) ?r)) \<and>
        truthy (name (app_of_row ?tr (labelToIndex ?lo ?tr (payload_cols ?p)) ?r)) \<and>
        app_store_id (app_of_row ?tr (labelToIndex ?lo ?tr (payload_cols ?p)) ?r) \<noteq> []"
    by blast
  then have n: "\<lparr>app_id = Num (- 3), name = JStr ''Notes'', app_store_id = [], category = None,
      created_at = None, updated_at = None\<rparr> \<notin> set (loadAppsFromSheet ?lo ?tr ?p)"
    by (simp add: c a)
  have l: "loadAppsFromSheet ?lo ?tr ?p =
     [\<lparr>app_id = Num 7, name = JStr ''Notes'', app_store_id = ''1110145109'', category = None,
       created_at = None, updated_at = None\<rparr>]"
    by (simp add: loader_eval)
  from r a n l show ?thesis by simp
qed

section \<open>The search step (AppService.searchAppsByCategory, searchApps)\<close>

text \<open>\<open>String.prototype.includes\<close>: the argument occurs as a contiguous part.\<close>

fun js_includes :: "string \<Rightarrow> string \<Rightarrow> bool" where
  "js_includes [] t = (t = [])"
| "js_includes (ch # str) t = (prefix t (ch # str) \<or> js_includes str t)"

fun is_string :: "jsval \<Rightarrow> bool" where
  "is_string (JStr str) = True"
| "is_string _ = False"

fun string_of :: "jsval \<Rightarrow> string" where
  "string_of (JStr str) = str"
| "string_of _ = []"

text \<open>
  \<^verbatim>\<open>a.category && categories.includes(a.category)\<close>: the category is a non-empty string
  among \<open>categories\<close>; no other value equals a string.
\<close>

definition in_categories :: "string list \<Rightarrow> AppData \<Rightarrow> bool" where
  "in_categories categories a =
     (case category a of
        Some (JStr cat) \<Rightarrow> cat \<noteq> [] \<and> cat \<in> set categories
      | _ \<Rightarrow> False)"

text \<open>
  \<open>searchAppsByCategory\<close>, on the catalog that \<open>loadAppsFromSheet\<close> returned.
  \<^verbatim>\<open>const term = searchTerm.trim().toLowerCase()
  const byName = apps.filter(a => a.name.toLowerCase().includes(term))
  const result = categories.includes('all') ? byName
    : byName.filter(a => a.category && categories.includes(a.category))
  return result.sort((a, b) => a.name.localeCompare(b.name))\<close>
  A name that is not a string has no \<open>toLowerCase\<close>: the call throws. \<open>localeCompare\<close> is the
  order of a collation key \<open>collate\<close>, a parameter, as \<open>toLowerCase\<close> and \<open>trim\<close> are; the sort
  is stable.
\<close>

definition searchAppsByCategory ::
  "(string \<Rightarrow> 'k::linorder) \<Rightarrow> (string \<Rightarrow> string) \<Rightarrow> (string \<Rightarrow> string) \<Rightarrow>
   string \<Rightarrow> string list \<Rightarrow> AppData list \<Rightarrow> error + AppData list" where
  "searchAppsByCategory collate toLowerCase trim searchTerm categories apps =
     (let term = toLowerCase (trim searchTerm)
      in if \<not> list_all (\<lambda>a. is_string (name a)) apps then Inl TypeError
         else (let byName = filter (\<lambda>a. js_includes (toLowerCase (string_of (name a))) term) apps;
                   result = (if ''all'' \<in> set categories then byName
                             else filter (in_categories categories) byName)
               in Inr (sort_key (\<lambda>a. collate (string_of (name a))) result)))"

text \<open>
  The search step of \<open>searchApps\<close>:
  \<^verbatim>\<open>await AppService.searchAppsByCategory(searchValue, ['app', 'game'])\<close>
\<close>

definition search_step ::
  "(string \<Rightarrow> 'k::linorder) \<Rightarrow> (string \<Rightarrow> string) \<Rightarrow> (string \<Rightarrow> string) \<Rightarrow>
   string \<Rightarrow> AppData list \<Rightarrow> error + AppData list" where
  "search_step collate toLowerCase trim searchValue apps =
     searchAppsByCategory collate toLowerCase trim searchValue [''app'', ''game''] apps"

lemma js_includes_iff: "js_includes str t \<longleftrightarrow> (\<exists>ps ss. str = ps @ t @ ss)"
proof (induction str)
  case Nil
  show ?case by simp
next
  case (Cons ch str)
  show ?case
  proof
    assume "js_includes (ch # str) t"
    then have "prefix t (ch # str) \<or> js_includes str t" by simp
    then show "\<exists>ps ss. ch # str = ps @ t @ ss"
    proof
      assume "prefix t (ch # str)"
      then obtain ss where "ch # str = t @ ss" by (auto simp: prefix_def)
      then have "ch # str = [] @ t @ ss" by simp
      then show ?thesis by blast
    next
      assume "js_includes str t"
      with Cons obtain ps ss where "str = ps @ t @ ss" by blast
      then have "ch # str = (ch # ps) @ t @ ss" by simp
      then show ?thesis by blast
    qed
  next
    assume "\<exists>ps ss. ch # str = ps @ t @ ss"
    then obtain ps ss where e: "ch # str = ps @ t @ ss" by blast
    show "js_includes (ch # str) t"
    proof (cases ps)
      case Nil
      with e have "prefix t (ch # str)" by (simp add: prefix_def)
      then show ?thesis by simp
    next
      case (Cons p ps')
      with e have "str = ps' @ t @ ss" by simp
      with Cons.IH have "js_includes str t" by blast
      then show ?thesis by simp
    qed
  qed
qed

lemma in_categories_app_game:
  "in_categories [''app'', ''game''] a \<longleftrightarrow>
   category a = Some (JStr ''app'') \<or> category a = Some (JStr ''game'')"
  by (auto simp: in_categories_def split: option.splits jsval.splits)

lemmas search_eval =
  search_step_def searchAppsByCategory_def in_categories_def

text \<open>
  Claim C2, as stated, on a catalog of two records whose names contain the term \<open>map\<close>, one
  without a category and one of a category that is no tab: the search step keeps neither.
  The parameters are functions that do to \<open>Maps\<close>, \<open>Map Pro\<close> and \<open>map\<close> what \<open>toLowerCase\<close> and
  \<open>trim\<close> do.
\<close>

theorem search_step_drops_other_categories:
  "js_includes (map (\<lambda>ch. if ch = CHR ''M'' then CHR ''m'' else if ch = CHR ''P'' then CHR ''p'' else ch) ''Maps'')
     (map (\<lambda>ch. if ch = CHR ''M'' then CHR ''m'' else if ch = CHR ''P'' then CHR ''p'' else ch) ((\<lambda>str. str) ''map'')) \<and>
   js_includes (map (\<lambda>ch. if ch = CHR ''M'' then CHR ''m'' else if ch = CHR ''P'' then CHR ''p'' else ch) ''Map Pro'')
     (map (\<lambda>ch. if ch = CHR ''M'' then CHR ''m'' else if ch = CHR ''P'' then CHR ''p'' else ch) ((\<lambda>str. str) ''map'')) \<and>
   search_step length
     (map (\<lambda>ch. if ch = CHR ''M'' then CHR ''m'' else if ch = CHR ''P'' then CHR ''p'' else ch))
     (\<lambda>str. str) ''map''
     [\<lparr>app_id = Num 1, name = JStr ''Maps'', app_store_id = ''915056765'', category = None,
       created_at = None, updated_at = None\<rparr>,
      \<lparr>app_id = Num 2, name = JStr ''Map Pro'', app_store_id = ''585027354'',
       category = Some (JStr ''utility''), created_at = None, updated_at = None\<rparr>] = Inr []"
  by (simp add: search_eval Let_def)

text \<open>
  Claim C2, amended. On a catalog whose names are strings, and for every search value, the
  search step returns the catalog records whose lower-cased name contains the trimmed,
  lower-cased term and whose category is \<open>app\<close> or \<open>game\<close>, each as often as the catalog has
  it, sorted by name; which of the two tabs is active plays no part. Records of another
  category or of none are kept only by a call whose categories include \<open>all\<close>. This holds
  whatever \<open>toLowerCase\<close>, \<open>trim\<close> and the collation do.
\<close>

theorem search_step_matches:
  "(list_all (\<lambda>a. is_string (name a)) apps \<longrightarrow>
      (\<exists>res. search_step collate toLowerCase trim searchValue apps = Inr res \<and>
         mset res = mset (filter (\<lambda>a. js_includes (toLowerCase (string_of (name a))) (toLowerCase (trim searchValue)) \<and>
                                      (category a = Some (JStr ''app'') \<or> category a = Some (JStr ''game''))) apps) \<and>
         set res = {a \<in> set apps. js_includes (toLowerCase (string_of (name a))) (toLowerCase (trim searchValue)) \<and>
                                      (category a = Some (JStr ''app'') \<or> category a = Some (JStr ''game''))} \<and>
         sorted (map (\<lambda>a. collate (string_of (name a))) res))) \<and>
   (list_all (\<lambda>a. is_string (name a)) apps \<and> ''all'' \<in> set categories \<longrightarrow>
      (\<exists>res. searchAppsByCategory collate toLowerCase trim searchValue categories apps = Inr res \<and>
         mset res = mset (filter (\<lambda>a. js_includes (toLowerCase (string_of (name a))) (toLowerCase (trim searchValue))) apps))) \<and>
   (js_includes str t \<longleftrightarrow> (\<exists>ps ss. str = ps @ t @ ss))"
proof (intro conjI impI)
  show "js_includes str t \<longleftrightarrow> (\<exists>ps ss. str = ps @ t @ ss)" by (rule js_includes_iff)
next
  assume "list_all (\<lambda>a. is_string (name a)) apps \<and> ''all'' \<in> set categories"
  then show "\<exists>res. searchAppsByCategory collate toLowerCase trim searchValue categories apps = Inr res \<and>
         mset res = mset (filter (\<lambda>a. js_includes (toLowerCase (string_of (name a))) (toLowerCase (trim searchValue))) apps)"
    by (simp add: searchAppsByCategory_def Let_def)
next
  assume s: "list_all (\<lambda>a. is_string (name a)) apps"
  let ?m = "\<lambda>a. js_includes (toLowerCase (string_of (name a))) (toLowerCase (trim searchValue))"
  let ?c = "\<lambda>a. category a = Some (JStr ''app'') \<or> category a = Some (JStr ''game'')"
  let ?res = "sort_key (\<lambda>a. collate (string_of (name a))) (filter (\<lambda>a. ?m a \<and> ?c a) apps)"
  have f: "filter (in_categories [''app'', ''game'']) (filter ?m apps) = filter (\<lambda>a. ?m a \<and> ?c a) apps"
    by (simp add: in_categories_app_game [abs_def])
  have all: "''all'' \<notin> set [''app'', ''game'']" by simp
  have r: "search_step collate toLowerCase trim searchValue apps = Inr ?res"
    unfolding search_step_def searchAppsByCategory_def Let_def using s all
    by (simp only: f if_False if_True not_True_eq_False simp_thms)
  have "mset ?res = mset (filter (\<lambda>a. ?m a \<and> ?c a) apps)" by simp
  moreover have "set ?res = {a \<in> set apps. ?m a \<and> ?c a}" by simp
  moreover have "sorted (map (\<lambda>a. collate (string_of (name a))) ?res)" by simp
  ultimately show "\<exists>res. search_step collate toLowerCase trim searchValue apps = Inr res \<and>
         mset res = mset (filter (\<lambda>a. ?m a \<and> ?c a) apps) \<and>
         set res = {a \<in> set apps. ?m a \<and> ?c a} \<and>
         sorted (map (\<lambda>a. collate (string_of (name a))) res)"
    using r by blast
qed

theorem search_step_matches_witness:
  "list_all (\<lambda>a. is_string (name a))
     [\<lparr>app_id = Num 1, name = JStr ''Zeta'', app_store_id = ''111'', category = Some (JStr ''app''),
       created_at = None, updated_at = None\<rparr>,
      \<lparr>app_id = Num 2, name = JStr ''Alpha'', app_store_id = ''222'', category = Some (JStr ''game''),
       created_at = None, updated_at = None\<rparr>,
      \<lparr>app_id = Num 3, name = JStr ''Maps'', app_store_id = ''333'', category = None,
       created_at = None, updated_at = None\<rparr>] \<and>
   search_step (\<lambda>str. of_char (hd str) :: nat)
     (map (\<lambda>ch. if ch = CHR ''A'' then CHR ''a'' else if ch = CHR ''Z'' then CHR ''z''
                else if ch = CHR ''M'' then CHR ''m'' else ch))
     (\<lambda>str. if str = '' A '' then ''A'' else str) '' A ''
     [\<lparr>app_id = Num 1, name = JStr ''Zeta'', app_store_id = ''111'', category = Some (JStr ''app''),
       created_at = None, updated_at = None\<rparr>,
      \<lparr>app_id = Num 2, name = JStr ''Alpha'', app_store_id = ''222'', category = Some (JStr ''game''),
       created_at = None, updated_at = None\<rparr>,
      \<lparr>app_id = Num 3, name = JStr ''Maps'', app_store_id = ''333'', category = None,
       created_at = None, updated_at = None\<rparr>] =
   Inr [\<lparr>app_id = Num 2, name = JStr ''Alpha'', app_store_id = ''222'', category = Some (JStr ''game''),
         created_at = None, updated_at = None\<rparr>,
        \<lparr>app_id = Num 1, name = JStr ''Zeta'', app_store_id = ''111'', category = Some (JStr ''app''),
         created_at = None, updated_at = None\<rparr>]"
proof -
  let ?z = "\<lparr>app_id = Num 1, name = JStr ''Zeta'', app_store_id = ''111'', category = Some (JStr ''app''),
       created_at = None, updated_at = None\<rparr>"
  let ?a = "\<lparr>app_id = Num 2, name = JStr ''Alpha'', app_store_id = ''222'', category = Some (JStr ''game''),
       created_at = None, updated_at = None\<rparr>"
  let ?m = "\<lparr>app_id = Num 3, name = JStr ''Maps'', app_store_id = ''333'', category = None,
       created_at = None, updated_at = None\<rparr>"
  let ?k = "\<lambda>str. of_char (hd str) :: nat"
  let ?lo = "map (\<lambda>ch. if ch = CHR ''A'' then CHR ''a'' else if ch = CHR ''Z'' then CHR ''z''
                else if ch = CHR ''M'' then CHR ''m'' else ch)"
  let ?tr = "\<lambda>str. if str = '' A '' then ''A'' else str"
  have la: "list_all (\<lambda>a. is_string (name a)) [?z, ?a, ?m]" by simp
  from search_step_matches [of "[?z, ?a, ?m]" ?k ?lo ?tr "'' A ''"] la
  obtain res where res: "search_step ?k ?lo ?tr '' A '' [?z, ?a, ?m] = Inr res"
    by blast
  have d: "search_step ?k ?lo ?tr '' A '' [?z, ?a, ?m] = Inr [?a, ?z]"
    by (simp add: search_eval Let_def)
  with res have "res = [?a, ?z]" by simp
  with res la show ?thesis by simp
qed

end
